(* ===== verification/Prelude.thy ===== *)
theory Prelude
  imports Complex_Main "HOL-Library.Word" "HOL-Library.Multiset" "HOL-Library.Monad_Syntax"
begin

text \<open>
  What every component of the development shares: the machine integers of the Rust sources,
  the checked and saturating operations of their standard library, array access that panics
  out of range (\<open>None\<close>), inclusive ranges, and the generic lemmas about words,
  lists and options that the component theories use.

  Arithmetic is that of the release profile of \<open>Cargo.toml\<close>: plain \<open>+\<close> and \<open>*\<close> wrap, which
  is what \<open>+\<close> and \<open>*\<close> of \<open>'n word\<close> do. A panic (\<open>expect\<close>, \<open>unwrap\<close>, an index out of
  range) is the value \<open>None\<close>.
\<close>

section \<open>Collections of rules\<close>

named_theorems rust_defs \<open>definitions of the Rust standard library operations\<close>
named_theorems f64_rules \<open>rules about the rounding of binary64 values\<close>
named_theorems hist_rules \<open>rules about well-formed histograms\<close>
named_theorems step_defs \<open>the parts a benchmark task's resumption is made of\<close>

section \<open>Machine integers\<close>

type_synonym u16 = "16 word"
type_synonym u64 = "64 word"
type_synonym u128 = "128 word"

definition u64_max :: u64 where
  [rust_defs]: "u64_max = 2 ^ 64 - 1"

lemma u64_max_eq: "u64_max = 18446744073709551615"
  by (simp add: u64_max_def)

lemma u64_max_minus_one: "u64_max = - 1"
  by (simp add: u64_max_def)

lemma unat_u64_max: "unat u64_max = 18446744073709551615"
  by (simp add: u64_max_eq)

lemma le_u64_max [simp]: "(n::u64) \<le> u64_max"
  by (simp add: u64_max_minus_one)

definition checked_add :: "u64 \<Rightarrow> u64 \<Rightarrow> u64 option" where
  [rust_defs]: "checked_add a b = (if uint a + uint b < 2 ^ 64 then Some (a + b) else None)"

definition checked_mul :: "u64 \<Rightarrow> u64 \<Rightarrow> u64 option" where
  [rust_defs]: "checked_mul a b = (if uint a * uint b < 2 ^ 64 then Some (a * b) else None)"

definition checked_div :: "u64 \<Rightarrow> u64 \<Rightarrow> u64 option" where
  [rust_defs]: "checked_div a b = (if b = 0 then None else Some (a div b))"

definition saturating_mul :: "u64 \<Rightarrow> u64 \<Rightarrow> u64" where
  [rust_defs]: "saturating_mul a b = (if uint a * uint b < 2 ^ 64 then a * b else u64_max)"

text \<open>
  Signed 64-bit values are \<open>int\<close>s in the range of \<open>i64\<close>: \<open>as_i64\<close> is the cast
  \<open>u64 as i64\<close>, \<open>as_u64\<close> the cast back, and \<open>wrap_i64\<close> what the range makes of an
  arithmetic result.
\<close>

definition as_i64 :: "u64 \<Rightarrow> int" where
  [rust_defs]: "as_i64 w = sint w"

definition as_u64 :: "int \<Rightarrow> u64" where
  [rust_defs]: "as_u64 i = word_of_int i"

definition wrap_i64 :: "int \<Rightarrow> int" where
  [rust_defs]: "wrap_i64 i = sint (word_of_int i :: u64)"

lemma wrap_i64_id: "- (2 ^ 63) \<le> i \<Longrightarrow> i < 2 ^ 63 \<Longrightarrow> wrap_i64 i = i"
  by (simp add: wrap_i64_def signed_of_int signed_take_bit_int_eq_self_iff)

lemma as_u64_wrap_i64: "as_u64 (wrap_i64 i) = as_u64 i"
  by (simp add: as_u64_def wrap_i64_def)

lemma uint_as_u64: "0 \<le> i \<Longrightarrow> i < 2 ^ 64 \<Longrightarrow> uint (as_u64 i) = i"
  by (simp add: as_u64_def unsigned_of_int take_bit_int_eq_self_iff)

lemma unat_as_u64: "0 \<le> i \<Longrightarrow> i < 2 ^ 64 \<Longrightarrow> unat (as_u64 i) = nat i"
  using uint_as_u64 [of i] by (simp add: unat_eq_nat_uint)

lemma unat_lt_64: "unat (w::u64) < 2 ^ 64"
  using unsigned_less [where 'b = 64 and 'a = nat and w = w] by simp

lemma unat_lt_64_num [simp]: "unat (w::u64) < 18446744073709551616"
  using unat_lt_64 [of w] by simp

lemma unat_of_nat_below: "k < unat (w::u64) \<Longrightarrow> unat (word_of_nat k :: u64) = k"
  using order.strict_trans [OF _ unat_lt_64 [of w], of k] by (simp add: unat_of_nat)

lemma uint_lt_iff_unat: "uint (w::u64) < 2 ^ k \<longleftrightarrow> unat w < 2 ^ k"
proof -
  have "uint w = int (unat w)" by simp
  then show ?thesis by (simp only: of_nat_less_numeral_power_cancel_iff)
qed

lemma uint_add_lt_iff_unat: "uint (a::u64) + uint b < 2 ^ k \<longleftrightarrow> unat a + unat b < 2 ^ k"
proof -
  have "uint a + uint b = int (unat a + unat b)" by simp
  then show ?thesis by (simp only: of_nat_less_numeral_power_cancel_iff)
qed

lemma uint_mul_lt_iff_unat: "uint (a::u64) * uint b < 2 ^ k \<longleftrightarrow> unat a * unat b < 2 ^ k"
proof -
  have "uint a * uint b = int (unat a * unat b)" by simp
  then show ?thesis by (simp only: of_nat_less_numeral_power_cancel_iff)
qed

lemma as_i64_small:
  assumes "unat w < 2 ^ 63"
  shows "as_i64 w = int (unat w)"
proof -
  have "uint w < 2 ^ 63" using assms uint_lt_iff_unat by blast
  then have "signed_take_bit 63 (uint w) = uint w"
    by (intro signed_take_bit_int_eq_self) (auto intro: order.trans [OF _ uint_ge_0])
  then show ?thesis by (simp add: as_i64_def sint_uint)
qed

lemma unat_add_no_wrap:
  fixes a b :: u64
  assumes "unat a + unat b < 2 ^ 64"
  shows "unat (a + b) = unat a + unat b"
  using assms by (simp add: unat_word_ariths)

lemma unat_suc_no_wrap:
  fixes a :: u64
  assumes "Suc (unat a) < 2 ^ 64"
  shows "unat (a + 1) = Suc (unat a)"
  using unat_add_no_wrap [of a 1] assms by simp

lemma checked_add_Some_iff:
  "checked_add a b = Some c \<longleftrightarrow> unat a + unat b < 2 ^ 64 \<and> c = a + b"
  unfolding checked_add_def uint_add_lt_iff_unat by auto

lemma checked_mul_Some_iff:
  "checked_mul a b = Some c \<longleftrightarrow> unat a * unat b < 2 ^ 64 \<and> c = a * b"
  unfolding checked_mul_def uint_mul_lt_iff_unat by auto

lemma unat_mul_no_wrap:
  fixes a b :: u64
  assumes "unat a * unat b < 2 ^ 64"
  shows "unat (a * b) = unat a * unat b"
  using assms by (simp add: unat_word_ariths)

lemma unat_saturating_mul:
  "unat (saturating_mul a b) = min (unat a * unat b) (2 ^ 64 - 1)"
proof (cases "unat a * unat b < 2 ^ 64")
  case True
  then show ?thesis
    unfolding saturating_mul_def uint_mul_lt_iff_unat by (simp add: unat_mul_no_wrap)
next
  case False
  then have "min (unat a * unat b) (2 ^ 64 - 1) = 2 ^ 64 - 1" by (intro min_absorb2) linarith
  with False show ?thesis
    unfolding saturating_mul_def uint_mul_lt_iff_unat by (simp add: unat_u64_max)
qed

section \<open>Slices and inclusive ranges\<close>

text \<open>Indexing a slice by a \<open>u64\<close> cast to \<open>usize\<close>: out of range panics.\<close>

definition index :: "'a list \<Rightarrow> u64 \<Rightarrow> 'a option" where
  [rust_defs]: "index xs i = (if unat i < length xs then Some (xs ! unat i) else None)"

lemma index_in_range [simp]: "unat i < length xs \<Longrightarrow> index xs i = Some (xs ! unat i)"
  by (simp add: index_def)

lemma index_None_iff: "index xs i = None \<longleftrightarrow> length xs \<le> unat i"
  by (simp add: index_def not_less)

text \<open>The values of the loop \<open>for i in lo..=hi\<close>, in order.\<close>

definition range_incl :: "u64 \<Rightarrow> u64 \<Rightarrow> u64 list" where
  [rust_defs]: "range_incl lo hi = map word_of_nat [unat lo ..< Suc (unat hi)]"

lemma map_unat_range_incl: "map unat (range_incl lo hi) = [unat lo ..< Suc (unat hi)]"
proof -
  have "map (unat \<circ> (word_of_nat :: nat \<Rightarrow> u64)) [unat lo ..< Suc (unat hi)]
      = map id [unat lo ..< Suc (unat hi)]"
  proof (rule map_cong)
    fix x assume "x \<in> set [unat lo ..< Suc (unat hi)]"
    then have "x \<le> unat hi" by auto
    then have "x < 2 ^ 64" using unat_lt_64 [of hi] by linarith
    then show "(unat \<circ> (word_of_nat :: nat \<Rightarrow> u64)) x = id x"
      by (simp add: unat_of_nat)
  qed simp
  then show ?thesis by (simp add: range_incl_def)
qed

lemma set_range_incl: "set (range_incl lo hi) = {lo..hi}"
proof -
  have "unat ` set (range_incl lo hi) = unat ` {lo..hi}"
  proof -
    have "unat ` set (range_incl lo hi) = {unat lo..unat hi}"
      by (metis map_unat_range_incl set_map set_upt atLeastLessThanSuc_atLeastAtMost)
    also have "\<dots> = unat ` {lo..hi}"
    proof
      show "{unat lo..unat hi} \<subseteq> unat ` {lo..hi}"
      proof
        fix x assume x: "x \<in> {unat lo..unat hi}"
        then have "x \<le> unat hi" by auto
    then have "x < 2 ^ 64" using unat_lt_64 [of hi] by linarith
        then have "unat (word_of_nat x :: u64) = x" by (simp add: unat_of_nat)
        with x show "x \<in> unat ` {lo..hi}"
          by (intro image_eqI [where x = "word_of_nat x"]) (simp_all add: word_le_nat_alt)
      qed
    qed (auto simp: word_le_nat_alt)
    finally show ?thesis .
  qed
  then show ?thesis by (rule inj_image_eq_iff [THEN iffD1, rotated]) (simp add: inj_on_def word_unat_eq_iff)
qed

lemma range_incl_empty: "hi < lo \<Longrightarrow> range_incl lo hi = []"
  by (simp add: range_incl_def word_less_nat_alt)

lemma sum_list_range_incl:
  "(\<Sum>i\<leftarrow>range_incl lo hi. f (unat i)) = (\<Sum>k = unat lo..unat hi. f k)"
proof -
  have "(\<Sum>i\<leftarrow>range_incl lo hi. f (unat i)) = sum_list (map f (map unat (range_incl lo hi)))"
    by (simp add: comp_def)
  also have "\<dots> = (\<Sum>k = unat lo..unat hi. f k)"
    by (simp add: map_unat_range_incl interv_sum_list_conv_sum_set_nat
        atLeastLessThanSuc_atLeastAtMost del: upt_Suc)
  finally show ?thesis .
qed

section \<open>Sums of words\<close>

lemma unat_sum_list_no_wrap:
  fixes ws :: "'a::len word list"
  assumes "(\<Sum>w\<leftarrow>ws. unat w) < 2 ^ LENGTH('a)"
  shows "unat (sum_list ws) = (\<Sum>w\<leftarrow>ws. unat w)"
  using assms
proof (induction ws)
  case Nil
  then show ?case by simp
next
  case (Cons w ws)
  then have "unat (sum_list ws) = (\<Sum>w\<leftarrow>ws. unat w)" by simp
  with Cons.prems show ?case by (simp add: unat_word_ariths)
qed

lemma unat_sum_list_mod:
  fixes ws :: "'a::len word list"
  shows "unat (sum_list ws) = (\<Sum>w\<leftarrow>ws. unat w) mod 2 ^ LENGTH('a)"
proof (induction ws)
  case Nil
  then show ?case by simp
next
  case (Cons w ws)
  then show ?case by (simp add: unat_word_ariths mod_add_right_eq)
qed

section \<open>Sums over a list with one element changed\<close>

lemma sum_list_swap:
  fixes f :: "'a \<Rightarrow> 'b::comm_monoid_add"
  assumes "i < length xs"
  shows "(\<Sum>x\<leftarrow>xs[i := y]. f x) + f (xs ! i) = (\<Sum>x\<leftarrow>xs. f x) + f y"
  using assms by (induction xs arbitrary: i) (auto simp: add_ac nth_Cons split: nat.splits)

lemma swap_total:
  fixes x y :: "'a::ab_group_add"
  assumes "x + a' = y + a" "t' + a = t + a'"
  shows "x + t' = y + t"
proof -
  have "(x + a') + (t' + a) = (y + a) + (t + a')" using assms by simp
  then show ?thesis by (simp add: algebra_simps)
qed

lemma swap_balance:
  fixes x y :: "'a::ab_group_add"
  assumes "x' + y = x + y'" "y' - c' = y - c"
  shows "x' - c' = x - c"
proof -
  have "x' = x + y' - y" using assms(1) by (simp add: eq_diff_eq)
  then have "x' - c' = x + (y' - c') - y" by (simp add: algebra_simps)
  then show ?thesis unfolding assms(2) by simp
qed

lemma bind_not_None: "m \<noteq> None \<Longrightarrow> (\<And>x. f x \<noteq> None) \<Longrightarrow> Option.bind m f \<noteq> None"
  by (cases m) simp_all

lemma all_set_update: "\<forall>x \<in> set xs. P x \<Longrightarrow> P y \<Longrightarrow> \<forall>x \<in> set (xs[i := y]). P x"
  using set_update_subset_insert [of xs i y] by blast

end
