(* ===== verification/F64.thy ===== *)
theory F64
  imports Prelude
begin

text \<open>
  The type \<open>f64\<close> of Rust: IEEE 754 binary64 values with rounding to nearest, ties to even.
  A finite value is a sign (True for negative) and a magnitude, an exact rational; every
  operation computes the exact rational result and rounds it once (\<open>fl\<close>), which is how the
  standard specifies \<open>+\<close>, \<open>-\<close>, \<open>*\<close>, \<open>/\<close>, \<open>sqrt\<close> and the integer casts. All of it
  is executable.
\<close>

section \<open>Rounding a rational\<close>

fun ilog2 :: "int \<Rightarrow> int" where
  "ilog2 n = (if n < 2 then 0 else 1 + ilog2 (n div 2))"

declare ilog2.simps [simp del]

text \<open>The exponent of a positive rational \<open>x\<close>: \<open>2 powi expo x \<le> x < 2 powi (expo x + 1)\<close>.\<close>

definition expo :: "rat \<Rightarrow> int" where
  "expo x = (let (a, b) = quotient_of x; e = ilog2 a - ilog2 b
             in if 2 powi e \<le> x then e else e - 1)"

definition round_even :: "rat \<Rightarrow> int" where
  "round_even x = (let f = \<lfloor>x\<rfloor>; d = x - of_int f
     in if d < 1 / 2 \<or> (d = 1 / 2 \<and> even f) then f else f + 1)"

text \<open>The exponent of the last place: 53 significant bits, down to the subnormal range.\<close>

definition ulp_exp :: "rat \<Rightarrow> int" where
  "ulp_exp x = max (expo x - 52) (- 1074)"

definition rnd :: "rat \<Rightarrow> rat" where
  "rnd x = (if x = 0 then 0
            else let q = ulp_exp x in of_int (round_even (x / 2 powi q)) * 2 powi q)"

section \<open>The values and their operations\<close>

datatype f64 = NaN | Infty bool | Finite bool rat

text \<open>Round a magnitude, overflowing to infinity from \<open>2^1024\<close> on.\<close>

definition fl :: "bool \<Rightarrow> rat \<Rightarrow> f64" where
  "fl s x = (let y = rnd x in if y = 0 \<or> expo y < 1024 then Finite s y else Infty s)"

definition signed_val :: "bool \<Rightarrow> rat \<Rightarrow> rat" where
  "signed_val s r = (if s then - r else r)"

fun f64_add :: "f64 \<Rightarrow> f64 \<Rightarrow> f64" where
  "f64_add NaN _ = NaN"
| "f64_add _ NaN = NaN"
| "f64_add (Infty s) (Infty t) = (if s = t then Infty s else NaN)"
| "f64_add (Infty s) (Finite _ _) = Infty s"
| "f64_add (Finite _ _) (Infty t) = Infty t"
| "f64_add (Finite s x) (Finite t y) =
     (let v = signed_val s x + signed_val t y
      in if v = 0 then Finite (s \<and> t) 0 else fl (v < 0) \<bar>v\<bar>)"

fun f64_neg :: "f64 \<Rightarrow> f64" where
  "f64_neg NaN = NaN"
| "f64_neg (Infty s) = Infty (\<not> s)"
| "f64_neg (Finite s x) = Finite (\<not> s) x"

fun f64_mul :: "f64 \<Rightarrow> f64 \<Rightarrow> f64" where
  "f64_mul NaN _ = NaN"
| "f64_mul _ NaN = NaN"
| "f64_mul (Infty s) (Infty t) = Infty (s \<noteq> t)"
| "f64_mul (Infty s) (Finite t y) = (if y = 0 then NaN else Infty (s \<noteq> t))"
| "f64_mul (Finite s x) (Infty t) = (if x = 0 then NaN else Infty (s \<noteq> t))"
| "f64_mul (Finite s x) (Finite t y) = fl (s \<noteq> t) (x * y)"

fun f64_div :: "f64 \<Rightarrow> f64 \<Rightarrow> f64" where
  "f64_div NaN _ = NaN"
| "f64_div _ NaN = NaN"
| "f64_div (Infty _) (Infty _) = NaN"
| "f64_div (Infty s) (Finite t _) = Infty (s \<noteq> t)"
| "f64_div (Finite s _) (Infty t) = Finite (s \<noteq> t) 0"
| "f64_div (Finite s x) (Finite t y) =
     (if y = 0 then (if x = 0 then NaN else Infty (s \<noteq> t)) else fl (s \<noteq> t) (x / y))"

fun f64_le :: "f64 \<Rightarrow> f64 \<Rightarrow> bool" where
  "f64_le NaN _ = False"
| "f64_le _ NaN = False"
| "f64_le (Infty s) (Infty t) = (s \<or> \<not> t)"
| "f64_le (Infty s) (Finite _ _) = s"
| "f64_le (Finite _ _) (Infty t) = (\<not> t)"
| "f64_le (Finite s x) (Finite t y) = (signed_val s x \<le> signed_val t y)"

text \<open>The operators of the source, on the class constants of the same shape.\<close>

instantiation f64 :: "{plus, minus, uminus, times, inverse, ord}"
begin

definition plus_f64 :: "f64 \<Rightarrow> f64 \<Rightarrow> f64" where "x + y = f64_add x y"
definition uminus_f64 :: "f64 \<Rightarrow> f64" where "- x = f64_neg x"
definition minus_f64 :: "f64 \<Rightarrow> f64 \<Rightarrow> f64" where "x - y = f64_add x (f64_neg y)"
definition times_f64 :: "f64 \<Rightarrow> f64 \<Rightarrow> f64" where "x * y = f64_mul x y"
definition divide_f64 :: "f64 \<Rightarrow> f64 \<Rightarrow> f64" where "x div y = f64_div x y"
definition inverse_f64 :: "f64 \<Rightarrow> f64" where "inverse x = f64_div (Finite False 1) x"
definition less_eq_f64 :: "f64 \<Rightarrow> f64 \<Rightarrow> bool" where "x \<le> y = f64_le x y"
definition less_f64 :: "f64 \<Rightarrow> f64 \<Rightarrow> bool" where "x < y = (f64_le x y \<and> \<not> f64_le y x)"

instance ..

end

lemmas f64_op_defs =
  plus_f64_def uminus_f64_def minus_f64_def times_f64_def divide_f64_def less_eq_f64_def less_f64_def

text \<open>A literal of the source, the casts \<open>n as f64\<close> and \<open>x as u64\<close> (saturating, NaN to 0).\<close>

definition lit :: "rat \<Rightarrow> f64" where
  "lit r = fl False r"

definition f64_of_u64 :: "u64 \<Rightarrow> f64" where
  "f64_of_u64 n = fl False (of_int (uint n))"

definition f64_of_u128 :: "u128 \<Rightarrow> f64" where
  "f64_of_u128 n = fl False (of_int (uint n))"

fun f64_as_u64 :: "f64 \<Rightarrow> u64" where
  "f64_as_u64 NaN = 0"
| "f64_as_u64 (Infty s) = (if s then 0 else u64_max)"
| "f64_as_u64 (Finite s r) =
     (if s then 0 else if 2 ^ 64 \<le> r then u64_max else word_of_int \<lfloor>r\<rfloor>)"

text \<open>
  The square root is correctly rounded too. With \<open>y = x / 4 powi q\<close> scaled so that its root
  has 53 bits before the point, the root's floor is an integer square root and the tie test
  compares squares.
\<close>

fun isqrt :: "int \<Rightarrow> int" where
  "isqrt n = (if n \<le> 0 then 0
              else let s = 2 * isqrt (n div 4) in if (s + 1) * (s + 1) \<le> n then s + 1 else s)"

declare isqrt.simps [simp del]

definition sqrt_rnd :: "rat \<Rightarrow> rat" where
  "sqrt_rnd x = (if x = 0 then 0
     else let q = expo x div 2 - 52; y = x / 4 powi q; s = isqrt \<lfloor>y\<rfloor>;
              h = (of_int s + 1 / 2) * (of_int s + 1 / 2)
          in of_int (if y < h \<or> (y = h \<and> even s) then s else s + 1) * 2 powi q)"

fun f64_sqrt :: "f64 \<Rightarrow> f64" where
  "f64_sqrt NaN = NaN"
| "f64_sqrt (Infty s) = (if s then NaN else Infty False)"
| "f64_sqrt (Finite s x) = (if x = 0 then Finite s 0 else if s then NaN else Finite False (sqrt_rnd x))"

end
