(* ===== verification/F64_Rounding.thy ===== *)
theory F64_Rounding
  imports F64
begin

text \<open>
  The rounding theory the components rest on: the rounding of \<open>F64\<close> is monotone, exact on
  representable values (so on integers up to \<open>2^53\<close>), off by at most half a unit in the last
  place, and undoes any relative error below \<open>2^-54\<close> around a representable value.
\<close>

abbreviation p2 :: "int \<Rightarrow> rat" where
  "p2 q \<equiv> 2 powi q"

lemma p2_pos [simp]: "0 < p2 q"
  by (simp add: zero_less_power_int)

lemma p2_nonneg [simp]: "0 \<le> p2 q"
  by (simp add: less_imp_le)

lemma p2_add: "p2 (a + b) = p2 a * p2 b"
  by (simp add: power_int_add)

lemma p2_mult: "a + b = c \<Longrightarrow> p2 a * p2 b = p2 c"
  by (simp flip: p2_add)

lemma p2_diff: "p2 (a - b) = p2 a / p2 b"
  by (simp add: power_int_diff)

lemma p2_suc: "p2 (a + 1) = 2 * p2 a"
  by (simp add: p2_add)

lemma p2_mono: "a \<le> b \<Longrightarrow> p2 a \<le> p2 b"
  by (simp add: power_int_increasing)

lemma p2_less: "a < b \<Longrightarrow> p2 a < p2 b"
  by (simp add: power_int_strict_increasing)

lemma p2_less_iff: "p2 a < p2 b \<longleftrightarrow> a < b"
  by (meson leD not_le_imp_less p2_less p2_mono)

lemma p2_nat: "p2 (int n) = 2 ^ n"
  by simp

lemma p2_53: "p2 53 = 9007199254740992" and p2_52: "p2 52 = 4503599627370496"
  by simp_all

section \<open>Exponents\<close>

lemma ilog2_bounds:
  assumes "1 \<le> n"
  shows "0 \<le> ilog2 n \<and> p2 (ilog2 n) \<le> of_int n \<and> of_int n < p2 (ilog2 n + 1)"
  using assms
proof (induction n rule: ilog2.induct)
  case (1 n)
  show ?case
  proof (cases "n < 2")
    case True
    with "1.prems" have "n = 1" by simp
    then show ?thesis by (simp add: ilog2.simps)
  next
    case False
    then have IH: "0 \<le> ilog2 (n div 2)" "p2 (ilog2 (n div 2)) \<le> of_int (n div 2)"
      "of_int (n div 2) < p2 (ilog2 (n div 2) + 1)" using "1.IH" by auto
    have eq: "ilog2 n = ilog2 (n div 2) + 1" using False by (subst ilog2.simps) simp
    have "(of_int (2 * (n div 2)) :: rat) \<le> of_int n" by (subst of_int_le_iff) presburger
    then have lo: "2 * of_int (n div 2) \<le> (of_int n :: rat)" by simp
    have "(of_int n :: rat) \<le> of_int (2 * (n div 2) + 1)" by (subst of_int_le_iff) presburger
    then have hi: "(of_int n :: rat) \<le> 2 * of_int (n div 2) + 1" by simp
    obtain k where k: "ilog2 (n div 2) = int k" using IH(1) nonneg_eq_int by blast
    have "of_int (n div 2) < (of_int (2 ^ (k + 1)) :: rat)"
      using IH(3) unfolding k by (simp add: power_int_add)
    then have "n div 2 + 1 \<le> 2 ^ (k + 1)" by (simp only: of_int_less_iff)
    then have "(of_int (n div 2) + 1 :: rat) \<le> of_int (2 ^ (k + 1))"
      by (metis of_int_1 of_int_add of_int_le_iff)
    then have "of_int (n div 2) + 1 \<le> p2 (ilog2 (n div 2) + 1)"
      unfolding k by (simp add: power_int_add)
    moreover have "p2 (ilog2 n + 1) = 2 * p2 (ilog2 (n div 2) + 1)"
      and "p2 (ilog2 n) = 2 * p2 (ilog2 (n div 2))" unfolding eq by (rule p2_suc)+
    ultimately show ?thesis using lo hi IH eq by linarith
  qed
qed

lemma expo_bounds:
  assumes "0 < x"
  shows "p2 (expo x) \<le> x \<and> x < p2 (expo x + 1)"
proof -
  obtain a b where ab: "quotient_of x = (a, b)" by fastforce
  have b: "1 \<le> b" using quotient_of_denom_pos [OF ab] by simp
  have x: "x = of_int a / of_int b" using quotient_of_div [OF ab] .
  with assms b have a: "1 \<le> a" by (simp add: zero_less_divide_iff)
  let ?e = "ilog2 a - ilog2 b"
  note A = ilog2_bounds [OF a, THEN conjunct2] and B = ilog2_bounds [OF b, THEN conjunct2]
  have bpos: "(0 :: rat) < of_int b" using b by simp
  have "p2 (?e - 1) * of_int b \<le> p2 (?e - 1) * p2 (ilog2 b + 1)"
    using B by (intro mult_left_mono) auto
  also have "\<dots> = p2 (ilog2 a)" by (simp flip: p2_add)
  also have "\<dots> \<le> of_int a" using A by simp
  finally have lo: "p2 (?e - 1) \<le> x" using bpos by (simp add: x pos_le_divide_eq)
  have "of_int a < p2 (ilog2 a + 1)" using A by simp
  also have "\<dots> = p2 (?e + 1) * p2 (ilog2 b)" by (simp flip: p2_add)
  also have "\<dots> \<le> p2 (?e + 1) * of_int b" using B by (intro mult_left_mono) auto
  finally have hi: "x < p2 (?e + 1)" using bpos by (simp add: x pos_divide_less_eq)
  have "expo x = (if p2 ?e \<le> x then ?e else ?e - 1)" by (simp add: expo_def ab Let_def)
  with lo hi show ?thesis by (auto simp: not_le)
qed

lemma expo_unique:
  assumes "p2 e \<le> x" "x < p2 (e + 1)"
  shows "expo x = e"
proof -
  have "0 < x" using assms(1) p2_pos less_le_trans by blast
  note B = expo_bounds [OF this]
  have "p2 (expo x) < p2 (e + 1)" "p2 e < p2 (expo x + 1)" using B assms by linarith+
  then show ?thesis unfolding p2_less_iff by linarith
qed

lemma expo_mono:
  assumes "0 < x" "x \<le> y"
  shows "expo x \<le> expo y"
proof -
  have "p2 (expo x) < p2 (expo y + 1)"
    using expo_bounds [of x] expo_bounds [of y] assms by linarith
  then show ?thesis unfolding p2_less_iff by linarith
qed

lemma ulp_exp_mono: "0 < x \<Longrightarrow> x \<le> y \<Longrightarrow> ulp_exp x \<le> ulp_exp y"
  using expo_mono [of x y] by (auto simp: ulp_exp_def)

section \<open>Rounding to an integer\<close>

lemma round_even_cases: "round_even x = \<lfloor>x\<rfloor> \<or> round_even x = \<lfloor>x\<rfloor> + 1"
  by (simp add: round_even_def Let_def)

lemma round_even_error: "\<bar>of_int (round_even x) - x\<bar> \<le> 1 / 2"
proof -
  have "of_int \<lfloor>x\<rfloor> \<le> x" "x < of_int \<lfloor>x\<rfloor> + 1" using floor_correct [of x] by simp_all
  then show ?thesis unfolding round_even_def Let_def abs_if by (simp, linarith)
qed

lemma round_even_int [simp]: "round_even (of_int k) = k"
  by (simp add: round_even_def)

lemma round_even_mono:
  assumes "x \<le> y"
  shows "round_even x \<le> round_even y"
proof (cases "\<lfloor>x\<rfloor> = \<lfloor>y\<rfloor>")
  case True
  then show ?thesis using assms by (auto simp: round_even_def Let_def)
next
  case False
  then have "\<lfloor>x\<rfloor> + 1 \<le> \<lfloor>y\<rfloor>" using floor_mono [OF assms] by linarith
  then show ?thesis using round_even_cases [of x] round_even_cases [of y] by linarith
qed

lemma round_even_le_int: "x \<le> of_int k \<Longrightarrow> round_even x \<le> k"
  using round_even_mono [of x "of_int k"] by simp

lemma round_even_ge_int: "of_int k \<le> x \<Longrightarrow> k \<le> round_even x"
  using round_even_mono [of "of_int k" x] by simp

section \<open>Rounding a rational\<close>

lemma rnd_zero [simp]: "rnd 0 = 0"
  by (simp add: rnd_def)

lemma rnd_pos_eq: "0 < x \<Longrightarrow> rnd x = of_int (round_even (x / p2 (ulp_exp x))) * p2 (ulp_exp x)"
  by (simp add: rnd_def Let_def)

lemma rnd_nonneg [simp]: "0 \<le> x \<Longrightarrow> 0 \<le> rnd x"
  using round_even_ge_int [of 0 "x / p2 (ulp_exp x)"]
  by (cases "x = 0") (auto simp: rnd_def Let_def)

lemma rnd_error:
  assumes "0 < x"
  shows "\<bar>rnd x - x\<bar> \<le> p2 (ulp_exp x) / 2"
proof -
  let ?u = "p2 (ulp_exp x)"
  have "rnd x - x = (of_int (round_even (x / ?u)) - x / ?u) * ?u"
    using assms by (simp add: rnd_pos_eq left_diff_distrib)
  then have "\<bar>rnd x - x\<bar> = \<bar>of_int (round_even (x / ?u)) - x / ?u\<bar> * ?u"
    by (simp add: abs_mult)
  also have "\<dots> \<le> 1 / 2 * ?u" by (intro mult_right_mono round_even_error) simp
  finally show ?thesis by simp
qed

text \<open>The scaled argument has at most 53 bits, and exactly 53 off the subnormal range.\<close>

lemma scaled_upper:
  assumes "0 < x"
  shows "x / p2 (ulp_exp x) < p2 53"
proof -
  have "x < p2 (expo x + 1)" using expo_bounds [OF assms] by simp
  also have "\<dots> \<le> p2 (ulp_exp x + 53)" by (rule p2_mono) (simp add: ulp_exp_def)
  finally show ?thesis by (simp add: pos_divide_less_eq p2_add mult.commute)
qed

lemma scaled_lower:
  assumes "0 < x" "- 1074 < ulp_exp x"
  shows "p2 52 \<le> x / p2 (ulp_exp x)"
proof -
  have "ulp_exp x + 52 = expo x" using assms(2) unfolding ulp_exp_def by linarith
  then have "p2 (ulp_exp x + 52) = p2 (expo x)" by (rule arg_cong)
  also have "\<dots> \<le> x" using expo_bounds [OF assms(1)] by simp
  finally show ?thesis by (simp add: pos_le_divide_eq p2_add mult.commute)
qed

lemma rnd_mono:
  assumes "0 \<le> x" "x \<le> y"
  shows "rnd x \<le> rnd y"
proof (cases "x = 0")
  case True
  then show ?thesis using assms by simp
next
  case False
  then have x: "0 < x" and y: "0 < y" using assms by auto
  show ?thesis
  proof (cases "ulp_exp x = ulp_exp y")
    case True
    have "round_even (x / p2 (ulp_exp y)) \<le> round_even (y / p2 (ulp_exp y))"
      using assms(2) by (intro round_even_mono divide_right_mono) simp_all
    then show ?thesis unfolding rnd_pos_eq [OF x] rnd_pos_eq [OF y] True
      by (intro mult_right_mono) simp_all
  next
    case False
    then have lt: "ulp_exp x + 1 \<le> ulp_exp y" using ulp_exp_mono [OF x assms(2)] by simp
    have gt: "- 1074 < ulp_exp y" using lt by (simp add: ulp_exp_def)
    have "round_even (x / p2 (ulp_exp x)) \<le> 2 ^ 53"
      using scaled_upper [OF x] by (intro round_even_le_int) simp
    then have "of_int (round_even (x / p2 (ulp_exp x))) \<le> (of_int (2 ^ 53) :: rat)"
      by (simp only: of_int_le_iff)
    then have "rnd x \<le> p2 53 * p2 (ulp_exp x)"
      unfolding rnd_pos_eq [OF x] by (intro mult_right_mono) simp_all
    also have "\<dots> = p2 (52 + (ulp_exp x + 1))"
      unfolding p2_add [symmetric] by (rule arg_cong [where f = p2]) simp
    also have "\<dots> \<le> p2 (52 + ulp_exp y)" using lt by (intro p2_mono) simp
    also have "\<dots> = of_int (2 ^ 52) * p2 (ulp_exp y)" by (simp add: p2_add)
    also have "\<dots> \<le> rnd y"
    proof -
      have "2 ^ 52 \<le> round_even (y / p2 (ulp_exp y))"
        using scaled_lower [OF y gt] by (intro round_even_ge_int) simp
      then have "(of_int (2 ^ 52) :: rat) \<le> of_int (round_even (y / p2 (ulp_exp y)))"
        by (simp only: of_int_le_iff)
      then show ?thesis unfolding rnd_pos_eq [OF y] by (intro mult_right_mono) simp_all
    qed
    finally show ?thesis .
  qed
qed

section \<open>Representable values\<close>

text \<open>A representable magnitude (ignoring overflow): at most 53 bits times a power of two.\<close>

definition is_rep :: "rat \<Rightarrow> bool" where
  "is_rep r \<longleftrightarrow> (\<exists>m q. 0 \<le> m \<and> m \<le> 2 ^ 53 \<and> - 1074 \<le> q \<and> r = of_int m * p2 q)"

lemma is_repI: "0 \<le> m \<Longrightarrow> m \<le> 2 ^ 53 \<Longrightarrow> - 1074 \<le> q \<Longrightarrow> is_rep (of_int m * p2 q)"
  unfolding is_rep_def by blast

lemma is_rep_nonneg: "is_rep r \<Longrightarrow> 0 \<le> r"
  by (auto simp: is_rep_def)

lemma is_rep_int: "0 \<le> m \<Longrightarrow> m \<le> 2 ^ 53 \<Longrightarrow> is_rep (of_int m)"
  using is_repI [of m 0] by simp

lemma is_rep_numeral: "numeral k \<le> (2 :: int) ^ 53 \<Longrightarrow> is_rep (numeral k)"
  using is_rep_int [of "numeral k"] by simp

lemma is_rep_zero [simp]: "is_rep 0"
  using is_rep_int [of 0] by simp

lemma is_rep_rnd: "0 \<le> x \<Longrightarrow> is_rep (rnd x)"
proof (cases "x = 0")
  case False
  assume "0 \<le> x"
  with False have x: "0 < x" by simp
  have "0 \<le> round_even (x / p2 (ulp_exp x))"
    using x by (intro round_even_ge_int) simp
  moreover have "round_even (x / p2 (ulp_exp x)) \<le> 2 ^ 53"
    using scaled_upper [OF x] by (intro round_even_le_int) simp
  moreover have "- 1074 \<le> ulp_exp x" by (simp add: ulp_exp_def)
  ultimately show ?thesis unfolding rnd_pos_eq [OF x] by (rule is_repI)
qed simp

text \<open>A representable value is a multiple of its last place, so rounding keeps it.\<close>

lemma p2_of_nat_mult: "\<exists>k. of_int m * p2 (int n) = of_int k"
  by (rule exI [where x = "m * 2 ^ n"]) simp

lemma rep_multiple:
  assumes "is_rep r" "0 < r"
  shows "\<exists>k. r = of_int k * p2 (ulp_exp r)"
proof -
  obtain m q where mq: "0 \<le> m" "m \<le> 2 ^ 53" "- 1074 \<le> q" "r = of_int m * p2 q"
    using assms(1) unfolding is_rep_def by blast
  show ?thesis
  proof (cases "m = 2 ^ 53")
    case True
    then have r: "r = p2 (53 + q)" using mq(4) by (simp add: p2_add)
    then have e: "expo r = 53 + q" by (intro expo_unique) (simp_all add: p2_less_iff)
    then have u: "ulp_exp r = q + 1" using mq(3) by (simp add: ulp_exp_def)
    have "p2 (53 + q) = of_int (2 ^ 52) * p2 (q + 1)"
      using p2_mult [of 52 "q + 1" "53 + q"] by simp
    then have "r = of_int (2 ^ 52) * p2 (ulp_exp r)" unfolding u by (rule trans [OF r])
    then show ?thesis by blast
  next
    case False
    then have m: "m < 2 ^ 53" using mq(2) by simp
    then have "(of_int m :: rat) < of_int (2 ^ 53)" by (simp only: of_int_less_iff)
    then have "r < p2 53 * p2 q" unfolding mq(4) by (intro mult_strict_right_mono) simp_all
    then have "r < p2 (53 + q)" unfolding p2_add .
    moreover have "p2 (expo r) \<le> r" using expo_bounds [OF assms(2)] by simp
    ultimately have "p2 (expo r) < p2 (53 + q)" by linarith
    then have "expo r < 53 + q" unfolding p2_less_iff .
    then have "ulp_exp r \<le> q" using mq(3) by (simp add: ulp_exp_def)
    then obtain n where n: "q = ulp_exp r + int n" by (metis zle_iff_zadd)
    obtain k where k: "of_int m * p2 (int n) = (of_int k :: rat)" using p2_of_nat_mult by blast
    have "r = (of_int m * p2 (int n)) * p2 (ulp_exp r)"
      using mq(4) unfolding n p2_add by (simp add: mult.commute mult.left_commute)
    then show ?thesis unfolding k by blast
  qed
qed

lemma rnd_rep [f64_rules]:
  assumes "is_rep r"
  shows "rnd r = r"
proof (cases "r = 0")
  case False
  then have r: "0 < r" using is_rep_nonneg [OF assms] by simp
  obtain k where k: "r = of_int k * p2 (ulp_exp r)" using rep_multiple [OF assms r] by blast
  then have "r / p2 (ulp_exp r) = of_int k" by (simp add: divide_eq_eq)
  then show ?thesis using k by (simp add: rnd_pos_eq [OF r])
qed simp

lemma rnd_idem: "0 \<le> x \<Longrightarrow> rnd (rnd x) = rnd x"
  by (rule rnd_rep) (rule is_rep_rnd)

lemma rnd_le_rep: "0 \<le> x \<Longrightarrow> x \<le> r \<Longrightarrow> is_rep r \<Longrightarrow> rnd x \<le> r"
  using rnd_mono [of x r] by (simp add: rnd_rep)

lemma rnd_ge_rep: "r \<le> x \<Longrightarrow> is_rep r \<Longrightarrow> r \<le> rnd x"
  using rnd_mono [of r x] is_rep_nonneg [of r] by (simp add: rnd_rep)

lemma rnd_int [f64_rules]: "0 \<le> m \<Longrightarrow> m \<le> 2 ^ 53 \<Longrightarrow> rnd (of_int m) = of_int m"
  by (rule rnd_rep) (rule is_rep_int)

section \<open>Absolute and relative error\<close>

lemma rnd_error_below:
  assumes "0 \<le> x" "x < p2 (e + 1)" "- 1022 \<le> e"
  shows "\<bar>rnd x - x\<bar> \<le> p2 (e - 53)"
proof (cases "x = 0")
  case False
  then have x: "0 < x" using assms(1) by simp
  have "p2 (expo x) < p2 (e + 1)" using expo_bounds [OF x] assms(2) by linarith
  then have "expo x \<le> e" unfolding p2_less_iff by simp
  then have "ulp_exp x \<le> e - 52" using assms(3) by (simp add: ulp_exp_def)
  then have "p2 (ulp_exp x) \<le> p2 (e - 53 + 1)" by (intro p2_mono) simp
  then have "p2 (ulp_exp x) / 2 \<le> p2 (e - 53)" unfolding p2_suc by simp
  with rnd_error [OF x] show ?thesis by linarith
qed simp

text \<open>A value of 53 bits is a unit in the last place away from the powers of two around it.\<close>

lemma rep_gaps:
  assumes "0 < k" "is_rep k" "- 1022 < expo k"
  shows "k + p2 (expo k - 52) \<le> p2 (expo k + 1)"
    and "k \<noteq> p2 (expo k) \<Longrightarrow> p2 (expo k) + p2 (expo k - 52) \<le> k"
proof -
  let ?e = "expo k"
  note K = expo_bounds [OF assms(1)]
  have uk: "ulp_exp k = ?e - 52" using assms(3) by (simp add: ulp_exp_def)
  obtain j where "k = of_int j * p2 (ulp_exp k)" using rep_multiple [OF assms(2,1)] by blast
  then have j: "of_int j * p2 (?e - 52) = k" unfolding uk by (rule sym)
  have e1: "of_int (2 ^ 53) * p2 (?e - 52) = p2 (?e + 1)"
    using p2_mult [of 53 "?e - 52" "?e + 1"] by simp
  have e0: "of_int (2 ^ 52) * p2 (?e - 52) = p2 ?e"
    using p2_mult [of 52 "?e - 52" ?e] by simp
  have "of_int j * p2 (?e - 52) < of_int (2 ^ 53) * p2 (?e - 52)"
    unfolding j e1 using K by simp
  then have "(of_int j :: rat) < of_int (2 ^ 53)" by (rule mult_right_less_imp_less) simp
  then have "j + 1 \<le> 2 ^ 53" by (simp only: of_int_less_iff)
  then have "(of_int (j + 1) :: rat) \<le> of_int (2 ^ 53)" by (simp only: of_int_le_iff)
  then have "of_int (j + 1) * p2 (?e - 52) \<le> of_int (2 ^ 53) * p2 (?e - 52)"
    by (rule mult_right_mono) simp
  then show "k + p2 (?e - 52) \<le> p2 (?e + 1)" unfolding e1 by (simp add: distrib_right j)
  assume "k \<noteq> p2 ?e"
  then have "of_int (2 ^ 52) * p2 (?e - 52) < of_int j * p2 (?e - 52)"
    unfolding j e0 using K by simp
  then have "(of_int (2 ^ 52) :: rat) < of_int j" by (rule mult_right_less_imp_less) simp
  then have "2 ^ 52 + 1 \<le> j" by (simp only: of_int_less_iff)
  then have "(of_int (2 ^ 52 + 1) :: rat) \<le> of_int j" by (simp only: of_int_le_iff)
  then have "of_int (2 ^ 52 + 1) * p2 (?e - 52) \<le> of_int j * p2 (?e - 52)"
    by (rule mult_right_mono) simp
  then show "p2 ?e + p2 (?e - 52) \<le> k"
    unfolding j of_int_add of_int_1 distrib_right mult_1 e0 .
qed

lemma ulp_gap:
  assumes "0 < x" "0 < k" "\<bar>x - k\<bar> < k * p2 (- 54)" "- 1022 < expo k"
    and "is_rep k"
  shows "ulp_exp x \<le> ulp_exp k \<and> \<bar>x - k\<bar> < p2 (ulp_exp x) / 2"
proof -
  let ?e = "expo k"
  note K = expo_bounds [OF assms(2)] and X = expo_bounds [OF assms(1)] and gaps = rep_gaps [OF assms(2,5,4)]
  have uk: "ulp_exp k = ?e - 52" using assms(4) by (simp add: ulp_exp_def)
  have "k * p2 (- 54) < p2 (?e + 1) * p2 (- 54)" using K by (intro mult_strict_right_mono) simp_all
  also have "\<dots> = p2 (?e - 53)" by (rule p2_mult) simp
  finally have small: "k * p2 (- 54) < p2 (?e - 53)" .
  have half: "p2 (?e - 53) = p2 (?e - 52) / 2" using p2_suc [of "?e - 53"] by simp
  show ?thesis
  proof (cases "?e \<le> expo x")
    case True
    have "x < p2 (?e + 1)" using gaps(1) assms(3) small half by linarith
    moreover have "p2 ?e \<le> x" using p2_mono [OF True] X by linarith
    ultimately have "expo x = ?e" by (intro expo_unique)
    then have "ulp_exp x = ?e - 52" using assms(4) by (simp add: ulp_exp_def)
    then show ?thesis using uk assms(3) small half by simp
  next
    case False
    then have "p2 (expo x + 1) \<le> p2 ?e" by (intro p2_mono) simp
    then have lt: "x < p2 ?e" using X by linarith
    have k0: "k = p2 ?e"
    proof (rule ccontr)
      assume "k \<noteq> p2 ?e"
      from gaps(2) [OF this] show False using assms(3) small lt half p2_pos [of "?e - 52"] by linarith
    qed
    have "p2 ?e * p2 (- 54) = p2 (?e - 54)" by (rule p2_mult) simp
    then have sm: "k * p2 (- 54) = p2 (?e - 54)" unfolding k0 [symmetric] .
    have h2: "p2 (?e - 54) = p2 (?e - 53) / 2" using p2_suc [of "?e - 54"] by simp
    have "p2 (?e - 54) \<le> p2 (?e - 1)" "p2 ?e = 2 * p2 (?e - 1)"
      using p2_suc [of "?e - 1"] by (simp_all add: p2_mono)
    then have "p2 (?e - 1) \<le> x" using assms(3) sm k0 by linarith
    then have "expo x = ?e - 1" using lt by (intro expo_unique) simp_all
    then have "ulp_exp x = ?e - 53" using assms(4) by (simp add: ulp_exp_def)
    then show ?thesis using uk assms(3) sm h2 by simp
  qed
qed

text \<open>A relative error below \<open>2^-54\<close> around a representable value is rounded away.\<close>

lemma rnd_absorbs:
  assumes "0 < x" "0 < k" "\<bar>x - k\<bar> < k * p2 (- 54)" "- 1022 < expo k" "is_rep k"
  shows "rnd x = k"
proof -
  let ?u = "p2 (ulp_exp x)"
  note gap = ulp_gap [OF assms]
  obtain j where j: "k = of_int j * p2 (ulp_exp k)" using rep_multiple [OF assms(5,2)] by blast
  obtain n where n: "ulp_exp k = ulp_exp x + int n" using gap by (metis zle_iff_zadd)
  obtain i where i: "of_int j * p2 (int n) = (of_int i :: rat)" using p2_of_nat_mult by blast
  have k: "k = of_int i * ?u"
    using j unfolding n p2_add i [symmetric] by (simp add: mult.commute mult.left_commute)
  let ?r = "round_even (x / ?u)"
  have "\<bar>of_int (?r - i) * ?u\<bar> = \<bar>rnd x - k\<bar>"
    unfolding rnd_pos_eq [OF assms(1)] k by (simp add: left_diff_distrib)
  also have "\<dots> < ?u" using rnd_error [OF assms(1)] gap by linarith
  finally have "\<bar>of_int (?r - i)\<bar> * ?u < 1 * ?u" by (simp add: abs_mult)
  then have "\<bar>of_int (?r - i) :: rat\<bar> < 1" by (simp only: mult_less_cancel_right_pos p2_pos)
  then have "?r = i" by (simp only: of_int_abs [symmetric] of_int_less_1_iff)
  then show ?thesis unfolding rnd_pos_eq [OF assms(1)] k by simp
qed

section \<open>Well-formed values and finite results\<close>

fun f64_ok :: "f64 \<Rightarrow> bool" where
  "f64_ok NaN = True"
| "f64_ok (Infty s) = True"
| "f64_ok (Finite s r) = (is_rep r \<and> (r = 0 \<or> expo r < 1024))"

lemma f64_ok_fl: "0 \<le> x \<Longrightarrow> f64_ok (fl s x)"
  by (simp add: fl_def Let_def is_rep_rnd)

lemma fl_finite [f64_rules]:
  assumes "0 \<le> x" "x \<le> p2 200"
  shows "fl s x = Finite s (rnd x)"
proof -
  have "rnd x \<le> p2 200"
    using assms is_repI [of 1 200] by (intro rnd_le_rep) simp_all
  moreover have e: "expo (p2 200) = 200" by (rule expo_unique) (simp_all add: p2_less_iff)
  ultimately have "expo (rnd x) < 1024" if "rnd x \<noteq> 0"
    using that rnd_nonneg [OF assms(1)] expo_mono [of "rnd x" "p2 200"] by linarith
  then show ?thesis by (auto simp: fl_def Let_def)
qed

lemma fl_int [f64_rules]:
  assumes "0 \<le> m" "m \<le> 2 ^ 53"
  shows "fl s (of_int m) = Finite s (of_int m)"
proof -
  have "(of_int m :: rat) \<le> of_int (2 ^ 53)" using assms(2) by (simp only: of_int_le_iff)
  also have "\<dots> \<le> p2 200" using p2_mono [of 53 200] by simp
  finally show ?thesis using assms by (simp add: fl_finite rnd_int)
qed

lemma lit_numeral: "numeral k \<le> (2 :: int) ^ 53 \<Longrightarrow> lit (numeral k) = Finite False (numeral k)"
  using fl_int [of "numeral k" False] by (simp add: lit_def)

lemma f64_of_u64_small:
  assumes "unat n \<le> 2 ^ 53"
  shows "f64_of_u64 n = Finite False (of_nat (unat n))"
proof -
  have n: "uint n = int (unat n)" by simp
  have "int (unat n) \<le> 2 ^ 53" using assms by (simp only: of_nat_le_numeral_power_cancel_iff)
  then have "fl False (of_int (int (unat n))) = Finite False (of_int (int (unat n)))"
    by (rule fl_int [rotated]) simp
  then show ?thesis unfolding f64_of_u64_def n by simp
qed

lemma f64_le_pos [simp]: "Finite False a \<le> Finite False b \<longleftrightarrow> a \<le> b"
  by (simp add: less_eq_f64_def signed_val_def)

lemma f64_le_refl: "a \<noteq> NaN \<Longrightarrow> a \<le> (a :: f64)"
  by (cases a) (simp_all add: less_eq_f64_def)

lemma f64_not_NaN_le [simp]: "\<not> NaN \<le> a" "\<not> (a :: f64) \<le> NaN"
  by (cases a; simp add: less_eq_f64_def)+

lemma f64_div_pos:
  assumes "0 \<le> a" "0 < b" "a / b \<le> p2 200"
  shows "Finite False a / Finite False b = Finite False (rnd (a / b))"
  using assms by (simp add: divide_f64_def fl_finite)

lemma f64_mul_pos:
  assumes "0 \<le> a" "0 \<le> b" "a * b \<le> p2 200"
  shows "Finite False a * Finite False b = Finite False (rnd (a * b))"
  using assms by (simp add: times_f64_def fl_finite)

lemma f64_add_pos:
  assumes "0 \<le> a" "0 \<le> b" "a + b \<le> p2 200"
  shows "Finite False a + Finite False b = Finite False (rnd (a + b))"
  using assms by (cases "a + b = 0") (auto simp: plus_f64_def signed_val_def fl_finite Let_def)

text \<open>Division by a positive constant is monotone, infinities included.\<close>

lemma f64_div_mono:
  assumes "0 \<le> a" "0 < c" "a / c \<le> p2 200" "f64_ok x" "Finite False a \<le> x"
  shows "Finite False (rnd (a / c)) \<le> x / Finite False c"
proof (cases x)
  case (Infty s)
  then show ?thesis using assms(5) by (simp add: less_eq_f64_def divide_f64_def)
next
  case (Finite s r)
  have r: "0 \<le> r" using assms(4) Finite is_rep_nonneg by auto
  have ar: "a \<le> r"
    using assms(1,5) r Finite by (auto simp: less_eq_f64_def signed_val_def split: if_splits)
  have "rnd (a / c) \<le> rnd (r / c)"
    using assms(1,2) ar by (intro rnd_mono divide_right_mono) simp_all
  moreover have "s \<Longrightarrow> r = 0 \<and> a = 0"
    using assms(1,5) r Finite by (auto simp: less_eq_f64_def signed_val_def)
  ultimately show ?thesis
    using assms(2) Finite
    by (auto simp: less_eq_f64_def divide_f64_def fl_def signed_val_def Let_def)
qed (use assms in simp)

end
