(* ===== verification/Rust_Str.thy ===== *)
theory Rust_Str
  imports F64_Rounding
begin

text \<open>
  The operations of Rust's \<open>str\<close> that the sources use. A \<open>string\<close> is the UTF-8 byte sequence
  of a \<open>str\<close>, so lengths, byte offsets and slices are the source's own; a pattern of ASCII
  characters matches bytes, because every byte of a multi-byte character is above \<open>0x7F\<close>. Only
  \<open>trim\<close> (Unicode white space) and the character iterators look at the encoding. The last part
  is formatting: \<open>Display\<close> of unsigned integers, width padding, and fixed precision for \<open>f64\<close>,
  which rounds the exact value to the nearest decimal, ties to even.
\<close>

section \<open>Bytes and characters\<close>

definition code :: "char \<Rightarrow> int" where
  "code c = of_char c"

definition is_digit :: "char \<Rightarrow> bool" where
  "is_digit c \<longleftrightarrow> 48 \<le> code c \<and> code c \<le> 57"

definition is_alpha :: "char \<Rightarrow> bool" where
  "is_alpha c \<longleftrightarrow> (65 \<le> code c \<and> code c \<le> 90) \<or> (97 \<le> code c \<and> code c \<le> 122)"

definition to_lower :: "char \<Rightarrow> char" where
  "to_lower c = (if 65 \<le> code c \<and> code c \<le> 90 then char_of (code c + 32) else c)"

definition to_ascii_lowercase :: "string \<Rightarrow> string" where
  "to_ascii_lowercase s = map to_lower s"

definition utf8_len :: "char \<Rightarrow> nat" where
  "utf8_len c = (if code c < 128 then 1 else if code c < 224 then 2 else if code c < 240 then 3 else 4)"

text \<open>The byte offset just after the first \<open>k\<close> characters (or all of them, if fewer).\<close>

fun char_end :: "nat \<Rightarrow> string \<Rightarrow> nat" where
  "char_end 0 s = 0"
| "char_end (Suc k) [] = 0"
| "char_end (Suc k) (c # cs) = utf8_len c + char_end k (drop (utf8_len c) (c # cs))"

definition char_count :: "string \<Rightarrow> nat" where
  "char_count s = length (filter (\<lambda>c. code c < 128 \<or> 192 \<le> code c) s)"

section \<open>Trimming\<close>

text \<open>The UTF-8 encodings of the characters with the Unicode property White\_Space.\<close>

definition white_space :: "string list" where
  "white_space = map (map char_of)
     ([[9], [10], [11], [12], [13], [32], [194, 133], [194, 160], [225, 154, 128],
       [226, 128, 168], [226, 128, 169], [226, 128, 175], [226, 129, 159], [227, 128, 128],
       [226, 128, 128], [226, 128, 129], [226, 128, 130], [226, 128, 131], [226, 128, 132],
       [226, 128, 133], [226, 128, 134], [226, 128, 135], [226, 128, 136], [226, 128, 137],
       [226, 128, 138]] :: int list list)"

function strip :: "string list \<Rightarrow> string \<Rightarrow> string" where
  "strip ws s = (case List.find (\<lambda>w. w \<noteq> [] \<and> s \<noteq> [] \<and> take (length w) s = w) ws of
     None \<Rightarrow> s | Some w \<Rightarrow> strip ws (drop (length w) s))"
  by pat_completeness auto
termination
  by (relation "measure (length \<circ> snd)") (auto simp: find_Some_iff)

declare strip.simps [simp del]

definition trim :: "string \<Rightarrow> string" where
  "trim s = rev (strip (map rev white_space) (rev (strip white_space s)))"

section \<open>Searching and splitting\<close>

fun split_once :: "string \<Rightarrow> string \<Rightarrow> (string \<times> string) option" where
  "split_once p [] = (if p = [] then Some ([], []) else None)"
| "split_once p (c # cs) = (if take (length p) (c # cs) = p then Some ([], drop (length p) (c # cs))
     else map_option (\<lambda>(a, b). (c # a, b)) (split_once p cs))"

text \<open>\<open>find\<close> of a set of ASCII characters: the byte offset of the first, if any.\<close>

definition find_char :: "string \<Rightarrow> string \<Rightarrow> nat option" where
  "find_char cs s = (let n = length (takeWhile (\<lambda>c. c \<notin> set cs) s)
                     in if n < length s then Some n else None)"

definition rfind_char :: "char \<Rightarrow> string \<Rightarrow> nat option" where
  "rfind_char c s = (let r = dropWhile (\<lambda>x. x \<noteq> c) (rev s)
                     in if r = [] then None else Some (length r - 1))"

section \<open>Numbers\<close>

definition digit_char :: "int \<Rightarrow> char" where
  "digit_char d = char_of (48 + d)"

definition digit_val :: "char \<Rightarrow> int" where
  "digit_val c = code c - 48"

fun dec_val :: "int \<Rightarrow> string \<Rightarrow> int" where
  "dec_val acc [] = acc"
| "dec_val acc (c # cs) = dec_val (acc * 10 + digit_val c) cs"

text \<open>\<open>str::parse\<close> for an unsigned type whose largest value is \<open>mx\<close>.\<close>

definition parse_uint :: "int \<Rightarrow> string \<Rightarrow> int option" where
  "parse_uint mx s =
     (let ds = (case s of c # d # cs \<Rightarrow> if c = CHR ''+'' then d # cs else s | _ \<Rightarrow> s)
      in if ds = [] \<or> \<not> list_all is_digit ds then None
         else if dec_val 0 ds \<le> mx then Some (dec_val 0 ds) else None)"

definition parse_u64 :: "string \<Rightarrow> u64 option" where
  "parse_u64 s = map_option word_of_int (parse_uint (2 ^ 64 - 1) s)"

definition parse_u16 :: "string \<Rightarrow> u16 option" where
  "parse_u16 s = map_option word_of_int (parse_uint (2 ^ 16 - 1) s)"

fun show_dec :: "int \<Rightarrow> string" where
  "show_dec n = (if n < 10 then [digit_char n] else show_dec (n div 10) @ [digit_char (n mod 10)])"

declare show_dec.simps [simp del]

definition show_u64 :: "u64 \<Rightarrow> string" where
  "show_u64 w = show_dec (uint w)"

definition show_u16 :: "u16 \<Rightarrow> string" where
  "show_u16 w = show_dec (uint w)"

section \<open>Formatting\<close>

definition pad_left :: "nat \<Rightarrow> string \<Rightarrow> string" where
  "pad_left w s = replicate (w - char_count s) CHR '' '' @ s"

definition pad_right :: "nat \<Rightarrow> string \<Rightarrow> string" where
  "pad_right w s = s @ replicate (w - char_count s) CHR '' ''"

text \<open>The last \<open>p\<close> decimal digits of a number, with leading zeros.\<close>

fun frac_digits :: "nat \<Rightarrow> int \<Rightarrow> string" where
  "frac_digits 0 n = []"
| "frac_digits (Suc p) n = frac_digits p (n div 10) @ [digit_char (n mod 10)]"

fun fmt_fixed :: "nat \<Rightarrow> f64 \<Rightarrow> string" where
  "fmt_fixed p NaN = ''NaN''"
| "fmt_fixed p (Infty s) = (if s then ''-inf'' else ''inf'')"
| "fmt_fixed p (Finite s r) =
     (let v = round_even (r * 10 ^ p)
      in (if s then ''-'' else []) @ show_dec (v div 10 ^ p)
         @ (if p = 0 then [] else CHR ''.'' # frac_digits p v))"

section \<open>Digits\<close>

lemma code_digit_char: "0 \<le> d \<Longrightarrow> d < 10 \<Longrightarrow> code (digit_char d) = 48 + d"
  by (simp add: code_def digit_char_def of_char_of)

lemma is_digit_char: "0 \<le> d \<Longrightarrow> d < 10 \<Longrightarrow> is_digit (digit_char d)"
  by (simp add: is_digit_def code_digit_char)

lemma digit_val_char: "0 \<le> d \<Longrightarrow> d < 10 \<Longrightarrow> digit_val (digit_char d) = d"
  by (simp add: digit_val_def code_digit_char)

lemma dec_val_append: "dec_val acc (xs @ ys) = dec_val (dec_val acc xs) ys"
  by (induction xs arbitrary: acc) simp_all

lemma show_dec_ne [simp]: "show_dec n \<noteq> []"
  by (subst show_dec.simps) simp

lemma show_dec_digits: "0 \<le> n \<Longrightarrow> list_all is_digit (show_dec n)"
proof (induction n rule: show_dec.induct)
  case (1 n)
  then show ?case
    by (cases "n < 10") (subst show_dec.simps, simp add: is_digit_char)+
qed

lemma dec_val_show_dec: "0 \<le> n \<Longrightarrow> dec_val 0 (show_dec n) = n"
proof (induction n rule: show_dec.induct)
  case (1 n)
  then show ?case
    by (cases "n < 10") (subst show_dec.simps, simp add: digit_val_char dec_val_append)+
qed

lemma dec_val_ge: "list_all is_digit ds \<Longrightarrow> 0 \<le> acc \<Longrightarrow> 0 \<le> dec_val acc ds"
  by (induction ds arbitrary: acc) (auto simp: digit_val_def is_digit_def)

lemma plus_not_digit [simp]: "\<not> is_digit CHR ''+''"
  by (simp add: is_digit_def code_def)

lemma parse_uint_digits:
  assumes "ds \<noteq> []" "list_all is_digit ds"
  shows "parse_uint mx ds = (if dec_val 0 ds \<le> mx then Some (dec_val 0 ds) else None)"
  using assms by (auto simp: parse_uint_def Let_def split: list.splits)

lemma parse_uint_show: "0 \<le> n \<Longrightarrow> n \<le> mx \<Longrightarrow> parse_uint mx (show_dec n) = Some n"
  by (simp add: parse_uint_digits show_dec_digits dec_val_show_dec)

lemma parse_uint_Some_range: "parse_uint mx s = Some v \<Longrightarrow> 0 \<le> v \<and> v \<le> mx"
proof -
  assume parse: "parse_uint mx s = Some v"
  define ds where "ds = (case s of c # d # cs \<Rightarrow> if c = CHR ''+'' then d # cs else s | _ \<Rightarrow> s)"
  have "list_all is_digit ds" "v = dec_val 0 ds" "v \<le> mx"
    using parse by (simp_all add: parse_uint_def Let_def flip: ds_def split: if_splits)
  then show ?thesis by (simp add: dec_val_ge)
qed

lemma parse_u64_show [simp]: "parse_u64 (show_u64 w) = Some w"
proof -
  have "uint w < 2 ^ 64" using uint_lt_iff_unat unat_lt_64 by blast
  then show ?thesis by (simp add: parse_u64_def show_u64_def parse_uint_show)
qed

lemma parse_u16_show [simp]: "parse_u16 (show_u16 w) = Some w"
proof -
  have "uint w < 2 ^ 16" using unsigned_less [of w] by simp
  then show ?thesis by (simp add: parse_u16_def show_u16_def parse_uint_show)
qed

lemma takeWhile_show_dec:
  assumes "0 \<le> n" "\<forall>c cs. rest = c # cs \<longrightarrow> \<not> is_digit c"
  shows "takeWhile is_digit (show_dec n @ rest) = show_dec n"
proof -
  have "\<forall>c \<in> set (show_dec n). is_digit c"
    using show_dec_digits [OF assms(1)] by (simp add: list_all_iff)
  then have "takeWhile is_digit (show_dec n @ rest) = show_dec n @ takeWhile is_digit rest"
    by (intro takeWhile_append2) blast
  with assms(2) show ?thesis by (cases rest) auto
qed

section \<open>Lines\<close>

definition println :: "string \<Rightarrow> string" where
  "println s = s @ [CHR 0x0A]"

definition quoted :: "string \<Rightarrow> string" where
  "quoted s = [CHR 0x27] @ s @ [CHR 0x27]"

end
