(* ===== verification/Stats.thy ===== *)
theory Stats
  imports Rust_Str
begin

text \<open>
  The component \<open>src/stats.rs\<close>: the direct-addressed histogram. This theory holds the record,
  every operation as one thread sees it (the atomics' interleavings are \<open>Stats_Conc\<close>), and
  the safety invariant under which no operation panics. \<open>None\<close> is a panic: a failed \<open>expect\<close>
  or an index out of range.
\<close>

section \<open>State and operations\<close>

record stats =
  st_count :: u64
  st_limit :: u64
  st_min :: u64
  st_max :: u64
  st_data :: "u64 list"

definition round_half_away :: "f64 \<Rightarrow> u64" where
  "round_half_away x = f64_as_u64 (x + lit (1 / 2))"

text \<open>\<open>Vec::with_capacity\<close> panics when the bytes asked for exceed \<open>isize::MAX\<close>.\<close>

definition stats_alloc :: "u64 \<Rightarrow> stats option" where
  "stats_alloc mx = do {
     limit \<leftarrow> checked_add mx 1;
     if 2 ^ 63 \<le> uint limit * 8 then None
     else Some \<lparr>st_count = 0, st_limit = limit, st_min = u64_max, st_max = 0,
                st_data = replicate (unat limit) 0\<rparr>
   }"

definition stats_record :: "u64 \<Rightarrow> stats \<Rightarrow> (bool \<times> stats) option" where
  "stats_record n s =
     (if st_limit s \<le> n then Some (False, s)
      else do {
        d \<leftarrow> index (st_data s) n;
        let s1 = s\<lparr>st_data := (st_data s)[unat n := d + 1], st_count := st_count s + 1\<rparr>;
        let cur_min = st_min s1;
        let cur_max = st_max s1;
        if cur_min \<le> n \<and> n \<le> cur_max then Some (True, s1)
        else (let s2 = (if n < cur_min then s1\<lparr>st_min := n\<rparr> else s1);
                  s3 = (if cur_max < n then s2\<lparr>st_max := n\<rparr> else s2)
              in Some (True, s3))
      })"

text \<open>
  The two loops of \<open>correct\<close>. The inner one walks \<open>m\<close> down by \<open>expected\<close> (positive, the
  caller has returned otherwise); the outer one walks \<open>n\<close> up to \<open>end_n\<close>, below \<open>2^63\<close>.
\<close>

function correct_inner :: "int \<Rightarrow> u64 \<Rightarrow> int \<Rightarrow> stats \<Rightarrow> stats option" where
  "correct_inner expected c m s =
     (if expected < m \<and> 0 < expected then do {
        d \<leftarrow> index (st_data s) (as_u64 m);
        correct_inner expected c (m - expected)
          (s\<lparr>st_data := (st_data s)[unat (as_u64 m) := d + c], st_count := st_count s + c\<rparr>)
      } else Some s)"
  by pat_completeness auto
termination
  by (relation "measure (\<lambda>(expected, c, m, s). nat m)") auto

declare correct_inner.simps [simp del]

function correct_outer :: "int \<Rightarrow> nat \<Rightarrow> nat \<Rightarrow> stats \<Rightarrow> stats option" where
  "correct_outer expected n end_n s =
     (if n \<le> end_n then do {
        c \<leftarrow> index (st_data s) (word_of_nat n);
        s' \<leftarrow> (if 0 < c then correct_inner expected c (int n - expected) s else Some s);
        correct_outer expected (Suc n) end_n s'
      } else Some s)"
  by pat_completeness auto
termination
  by (relation "measure (\<lambda>(expected, n, end_n, s). Suc end_n - n)") auto

declare correct_outer.simps [simp del]

definition stats_correct :: "int \<Rightarrow> stats \<Rightarrow> stats option" where
  "stats_correct expected s =
     (if expected \<le> 0 then Some s
      else (let mx = as_i64 (st_max s);
                start = as_u64 (wrap_i64 (expected * 2));
                end_n = as_u64 (max mx 0)
            in correct_outer expected (unat start) (unat end_n) s))"

fun mean_loop :: "u64 list \<Rightarrow> u64 list \<Rightarrow> u128 \<Rightarrow> u128 option" where
  "mean_loop d [] acc = Some acc"
| "mean_loop d (i # is) acc = do {
     c \<leftarrow> index d i;
     mean_loop d is (acc + ucast c * ucast i)
   }"

definition stats_mean :: "stats \<Rightarrow> f64 option" where
  "stats_mean s =
     (if st_count s = 0 then Some (lit 0)
      else do {
        acc \<leftarrow> mean_loop (st_data s) (range_incl (st_min s) (st_max s)) 0;
        Some (f64_of_u128 acc / f64_of_u64 (st_count s))
      })"

fun stdev_loop :: "f64 \<Rightarrow> u64 list \<Rightarrow> u64 list \<Rightarrow> f64 \<Rightarrow> f64 option" where
  "stdev_loop mean d [] acc = Some acc"
| "stdev_loop mean d (i # is) acc = do {
     c \<leftarrow> index d i;
     stdev_loop mean d is
       (if 0 < c then (let dd = f64_of_u64 i - mean in acc + dd * dd * f64_of_u64 c) else acc)
   }"

definition stats_stdev :: "f64 \<Rightarrow> stats \<Rightarrow> f64 option" where
  "stats_stdev mean s =
     (if st_count s < 2 then Some (lit 0)
      else do {
        acc \<leftarrow> stdev_loop mean (st_data s) (range_incl (st_min s) (st_max s)) (lit 0);
        Some (f64_sqrt (acc / f64_of_u64 (st_count s - 1)))
      })"

fun within_loop :: "f64 \<Rightarrow> f64 \<Rightarrow> u64 list \<Rightarrow> u64 list \<Rightarrow> u64 \<Rightarrow> u64 option" where
  "within_loop lower upper d [] acc = Some acc"
| "within_loop lower upper d (i # is) acc =
     (if lower \<le> f64_of_u64 i \<and> f64_of_u64 i \<le> upper
      then do { c \<leftarrow> index d i; within_loop lower upper d is (acc + c) }
      else within_loop lower upper d is acc)"

definition stats_within_stdev :: "f64 \<Rightarrow> f64 \<Rightarrow> f64 \<Rightarrow> stats \<Rightarrow> f64 option" where
  "stats_within_stdev mean stdev n s =
     (if st_count s = 0 then Some (lit 0)
      else (let upper = mean + stdev * n; lower = mean - stdev * n in do {
        acc \<leftarrow> within_loop lower upper (st_data s) (range_incl (st_min s) (st_max s)) 0;
        Some (f64_of_u64 acc / f64_of_u64 (st_count s) * lit 100)
      }))"

fun percentile_loop :: "u64 \<Rightarrow> u64 list \<Rightarrow> u64 list \<Rightarrow> u64 \<Rightarrow> u64 option" where
  "percentile_loop rank d [] tot = Some 0"
| "percentile_loop rank d (i # is) tot = do {
     c \<leftarrow> index d i;
     let tot = tot + c;
     if rank \<le> tot then Some i else percentile_loop rank d is tot
   }"

definition percentile_rank :: "f64 \<Rightarrow> u64 \<Rightarrow> u64" where
  "percentile_rank p cnt = round_half_away (p / lit 100 * f64_of_u64 cnt + lit (1 / 2))"

definition stats_percentile :: "f64 \<Rightarrow> stats \<Rightarrow> u64 option" where
  "stats_percentile p s =
     (if st_count s = 0 then Some 0
      else percentile_loop (percentile_rank p (st_count s)) (st_data s)
             (range_incl (st_min s) (st_max s)) 0)"

fun popcount_loop :: "u64 list \<Rightarrow> u64 list \<Rightarrow> u64 \<Rightarrow> u64 option" where
  "popcount_loop d [] cnt = Some cnt"
| "popcount_loop d (i # is) cnt = do {
     c \<leftarrow> index d i;
     popcount_loop d is (if 0 < c then cnt + 1 else cnt)
   }"

definition stats_popcount :: "stats \<Rightarrow> u64 option" where
  "stats_popcount s = popcount_loop (st_data s) (range_incl (st_min s) (st_max s)) 0"

text \<open>A sequence of samples, as one thread records them.\<close>

fun record_all :: "u64 list \<Rightarrow> stats \<Rightarrow> stats option" where
  "record_all [] s = Some s"
| "record_all (n # ns) s = do { (_, s') \<leftarrow> stats_record n s; record_all ns s' }"

section \<open>No panic\<close>

text \<open>The array covers every value up to \<open>max\<close>: what each index of the module relies on.\<close>

definition stats_safe :: "stats \<Rightarrow> bool" where
  "stats_safe s \<longleftrightarrow> length (st_data s) = unat (st_limit s) \<and> st_max s < st_limit s
     \<and> unat (st_limit s) < 2 ^ 60"

lemma stats_safeD [hist_rules]:
  assumes "stats_safe s"
  shows "length (st_data s) = unat (st_limit s)" "unat (st_max s) < length (st_data s)"
    "unat (st_max s) < 2 ^ 60" "length (st_data s) < 2 ^ 60"
  using assms by (auto simp: stats_safe_def word_less_nat_alt)

lemma stats_alloc_Some_iff:
  "stats_alloc mx = Some s \<longleftrightarrow> unat mx + 1 < 2 ^ 60 \<and>
     s = \<lparr>st_count = 0, st_limit = mx + 1, st_min = u64_max, st_max = 0,
          st_data = replicate (unat mx + 1) 0\<rparr>"
proof (cases "unat mx + 1 < 2 ^ 64")
  case True
  then have "checked_add mx 1 = Some (mx + 1)" by (simp add: checked_add_Some_iff)
  moreover have u: "unat (mx + 1) = unat mx + 1" using True unat_suc_no_wrap [of mx] by simp
  moreover have "2 ^ 63 \<le> uint (mx + 1) * 8 \<longleftrightarrow> \<not> unat (mx + 1) < 2 ^ 60"
    using uint_lt_iff_unat [of "mx + 1" 60] by (simp add: not_less, linarith)
  ultimately show ?thesis by (auto simp: stats_alloc_def)
next
  case False
  then have "checked_add mx 1 = None"
    unfolding checked_add_def uint_add_lt_iff_unat by simp
  with False show ?thesis by (auto simp: stats_alloc_def)
qed

lemma stats_safe_alloc: "stats_alloc mx = Some s \<Longrightarrow> stats_safe s"
  by (auto simp: stats_alloc_Some_iff stats_safe_def word_less_nat_alt unat_suc_no_wrap)

lemma stats_record_Some:
  assumes "stats_safe s"
  shows "\<exists>s'. stats_record n s = Some (n < st_limit s, s') \<and> stats_safe s'
      \<and> st_limit s' = st_limit s"
proof (cases "st_limit s \<le> n")
  case True
  then show ?thesis using assms by (simp add: stats_record_def not_less)
next
  case False
  then have "n < st_limit s" by simp
  then have "unat n < length (st_data s)"
    using assms by (simp add: stats_safe_def word_less_nat_alt)
  with False assms show ?thesis by (auto simp: stats_record_def stats_safe_def Let_def)
qed

lemma record_all_Some:
  "stats_safe s \<Longrightarrow> \<exists>s'. record_all ns s = Some s' \<and> stats_safe s' \<and> st_limit s' = st_limit s"
proof (induction ns arbitrary: s)
  case (Cons n ns)
  obtain s1 where "stats_record n s = Some (n < st_limit s, s1)" "stats_safe s1"
    "st_limit s1 = st_limit s" using stats_record_Some [OF Cons.prems, of n] by blast
  then show ?case using Cons.IH [of s1] by auto
qed simp

text \<open>Every index a query uses is in range.\<close>

lemma range_in_data:
  "stats_safe s \<Longrightarrow> \<forall>i \<in> set (range_incl (st_min s) (st_max s)). unat i < length (st_data s)"
  using stats_safeD(2) [of s] by (auto simp: set_range_incl word_le_nat_alt)

lemma mean_loop_Some:
  "\<forall>i \<in> set is. unat i < length d \<Longrightarrow>
    mean_loop d is acc = Some (acc + (\<Sum>i\<leftarrow>is. ucast (d ! unat i) * ucast i))"
  by (induction "is" arbitrary: acc) (auto simp: add.assoc)

lemma stdev_loop_Some:
  "\<forall>i \<in> set is. unat i < length d \<Longrightarrow> \<exists>r. stdev_loop m d is acc = Some r"
  by (induction "is" arbitrary: acc) auto

lemma within_loop_Some:
  "\<forall>i \<in> set is. unat i < length d \<Longrightarrow> within_loop lo hi d is acc =
    Some (acc + (\<Sum>i\<leftarrow>filter (\<lambda>i. lo \<le> f64_of_u64 i \<and> f64_of_u64 i \<le> hi) is. d ! unat i))"
  by (induction "is" arbitrary: acc) (auto simp: add.assoc)

lemma percentile_loop_Some:
  "\<forall>i \<in> set is. unat i < length d \<Longrightarrow> \<exists>r. percentile_loop rank d is tot = Some r"
  by (induction "is" arbitrary: tot) (auto simp: Let_def)

lemma popcount_loop_Some:
  "\<forall>i \<in> set is. unat i < length d \<Longrightarrow>
    popcount_loop d is c = Some (c + of_nat (length (filter (\<lambda>i. 0 < d ! unat i) is)))"
  by (induction "is" arbitrary: c) (auto simp: add.assoc)

lemmas loop_Some = mean_loop_Some stdev_loop_Some within_loop_Some percentile_loop_Some
  popcount_loop_Some

lemma queries_Some:
  assumes "stats_safe s"
  shows "stats_mean s \<noteq> None" "stats_stdev m s \<noteq> None" "stats_within_stdev m d n s \<noteq> None"
    "stats_percentile p s \<noteq> None" "stats_popcount s \<noteq> None"
proof -
  note ok = range_in_data [OF assms]
  show "stats_mean s \<noteq> None" by (simp add: stats_mean_def mean_loop_Some [OF ok])
  show "stats_stdev m s \<noteq> None"
    using stdev_loop_Some [OF ok, of m "lit 0"] by (auto simp: stats_stdev_def)
  show "stats_within_stdev m d n s \<noteq> None"
    by (simp add: stats_within_stdev_def within_loop_Some [OF ok] Let_def)
  show "stats_percentile p s \<noteq> None"
    using percentile_loop_Some [OF ok, of "percentile_rank p (st_count s)" 0]
    by (auto simp: stats_percentile_def)
  show "stats_popcount s \<noteq> None" by (simp add: stats_popcount_def popcount_loop_Some [OF ok])
qed

end
