(* ===== verification/Stats_Spec.thy ===== *)
theory Stats_Spec
  imports Stats
begin

text \<open>
  The abstract histogram: a multiset of samples. \<open>represents s M\<close> says that the record of
  \<open>Stats\<close> stores exactly \<open>M\<close>; recording is insertion (the locale \<open>sample_sink\<close>, which the
  benchmark tasks and the rate recorder rely on), and the queries over \<open>min..=max\<close> are the
  corresponding sums over \<open>M\<close>.
\<close>

section \<open>The contract of a sink of samples\<close>

locale sample_sink =
  fixes put :: "'x \<Rightarrow> 's \<Rightarrow> (bool \<times> 's) option"
    and rep :: "'s \<Rightarrow> 'x multiset \<Rightarrow> bool"
    and accepts :: "'s \<Rightarrow> 'x \<Rightarrow> bool"
  assumes put_rep: "rep s M \<Longrightarrow> \<exists>s'. put n s = Some (accepts s n, s')
      \<and> rep s' (if accepts s n then add_mset n M else M) \<and> accepts s' = accepts s"
begin

primrec put_all :: "'x list \<Rightarrow> 's \<Rightarrow> 's option" where
  "put_all [] s = Some s"
| "put_all (n # ns) s = (case put n s of None \<Rightarrow> None | Some (b, s') \<Rightarrow> put_all ns s')"

lemma put_all_rep:
  "rep s M \<Longrightarrow> \<exists>s'. put_all ns s = Some s' \<and> accepts s' = accepts s
     \<and> rep s' (M + mset (filter (accepts s) ns))"
proof (induction ns arbitrary: s M)
  case (Cons n ns)
  obtain s1 where s1: "put n s = Some (accepts s n, s1)" "accepts s1 = accepts s"
    "rep s1 (if accepts s n then add_mset n M else M)"
    using put_rep [OF Cons.prems] by blast
  obtain s2 where "put_all ns s1 = Some s2" "accepts s2 = accepts s1"
    "rep s2 ((if accepts s n then add_mset n M else M) + mset (filter (accepts s1) ns))"
    using Cons.IH [OF s1(3)] by blast
  with s1 show ?case by (auto simp: add.commute split: if_splits)
qed simp

end

section \<open>The representation\<close>

definition min_of :: "u64 multiset \<Rightarrow> u64" where
  "min_of M = (if M = {#} then u64_max else Min (set_mset M))"

definition max_of :: "u64 multiset \<Rightarrow> u64" where
  "max_of M = (if M = {#} then 0 else Max (set_mset M))"

definition represents :: "stats \<Rightarrow> u64 multiset \<Rightarrow> bool" where
  "represents s M \<longleftrightarrow> stats_safe s \<and> (\<forall>x \<in># M. x < st_limit s)
     \<and> (\<forall>i < st_limit s. st_data s ! unat i = of_nat (count M i))
     \<and> st_count s = of_nat (size M) \<and> st_min s = min_of M \<and> st_max s = max_of M"

lemma min_of_add: "min_of (add_mset n M) = (if n < min_of M then n else min_of M)"
proof (cases "M = {#}")
  case True
  then show ?thesis using le_u64_max [of n] by (auto simp: min_of_def order.order_iff_strict)
next
  case False
  then have "min_of (add_mset n M) = min n (min_of M)" by (simp add: min_of_def Min_insert)
  then show ?thesis by (auto simp: min_def le_less)
qed

lemma max_of_add: "max_of (add_mset n M) = (if max_of M < n then n else max_of M)"
proof (cases "M = {#}")
  case True
  then show ?thesis by (auto simp: max_of_def word_gt_0)
next
  case False
  then have "max_of (add_mset n M) = max n (max_of M)" by (simp add: max_of_def Max_insert)
  then show ?thesis by (auto simp: max_def not_less)
qed

lemma represents_alloc:
  assumes "stats_alloc mx = Some s"
  shows "represents s {#} \<and> unat (st_limit s) = unat mx + 1"
proof -
  from assms have s: "unat mx + 1 < 2 ^ 60"
    "s = \<lparr>st_count = 0, st_limit = mx + 1, st_min = u64_max, st_max = 0,
          st_data = replicate (unat mx + 1) 0\<rparr>" unfolding stats_alloc_Some_iff by auto
  then have "unat (mx + 1) = unat mx + 1" by (simp add: unat_suc_no_wrap)
  then show ?thesis
    using s stats_safe_alloc [OF assms]
    by (auto simp: represents_def min_of_def max_of_def word_less_nat_alt simp del: replicate_Suc)
qed

lemma record_represents:
  assumes "represents s M"
  shows "\<exists>s'. stats_record n s = Some (n < st_limit s, s')
    \<and> represents s' (if n < st_limit s then add_mset n M else M) \<and> st_limit s' = st_limit s"
proof -
  have safe: "stats_safe s" using assms by (simp add: represents_def)
  obtain s' where s': "stats_record n s = Some (n < st_limit s, s')" "stats_safe s'"
    "st_limit s' = st_limit s" using stats_record_Some [OF safe] by blast
  have "represents s' (if n < st_limit s then add_mset n M else M)"
  proof (cases "n < st_limit s")
    case True
    then have idx: "unat n < length (st_data s)"
      using stats_safeD(1) [OF safe] by (simp add: word_less_nat_alt)
    have data: "st_data s' = (st_data s)[unat n := st_data s ! unat n + 1]"
      and cnt: "st_count s' = st_count s + 1"
      and mn: "st_min s' = (if n < st_min s then n else st_min s)"
      and mx: "st_max s' = (if st_max s < n then n else st_max s)"
      using s'(1) True idx by (auto simp: stats_record_def Let_def not_le split: if_splits)
    have "st_data s' ! unat i = of_nat (count (add_mset n M) i)" if "i < st_limit s" for i
    proof (cases "i = n")
      case False
      then have "unat n \<noteq> unat i" by (simp add: word_unat_eq_iff)
      with False that assms data show ?thesis by (simp add: represents_def)
    qed (use that assms data idx in \<open>simp add: represents_def add.commute\<close>)
    then show ?thesis
      using assms True s' cnt mn mx
      by (auto simp: represents_def min_of_add max_of_add add.commute)
  next
    case False
    then have "s' = s" using s'(1) by (simp add: stats_record_def not_less)
    with False assms show ?thesis by simp
  qed
  with s' show ?thesis by blast
qed

interpretation stats_sink: sample_sink stats_record represents "\<lambda>s n. n < st_limit s"
proof
  fix s M n
  assume "represents s M"
  from record_represents [OF this, of n]
  show "\<exists>s'. stats_record n s = Some (n < st_limit s, s')
      \<and> represents s' (if n < st_limit s then add_mset n M else M)
      \<and> (\<lambda>x. x < st_limit s') = (\<lambda>x. x < st_limit s)" by auto
qed

lemma record_all_put_all: "record_all ns s = stats_sink.put_all ns s"
  by (induction ns arbitrary: s) (auto split: option.splits)

lemma record_all_represents:
  assumes "stats_alloc mx = Some s"
  shows "\<exists>s'. record_all ns s = Some s' \<and> represents s' (mset (filter (\<lambda>n. n \<le> mx) ns))
      \<and> st_limit s' = st_limit s"
proof -
  have lim: "(\<lambda>n. n < st_limit s) = (\<lambda>n. n \<le> mx)"
    using represents_alloc [OF assms] by (auto simp: word_less_nat_alt word_le_nat_alt)
  obtain s' where s': "record_all ns s = Some s'" "represents s' (mset (filter (\<lambda>n. n \<le> mx) ns))"
    using stats_sink.put_all_rep [of s "{#}" ns] represents_alloc [OF assms] lim
    by (auto simp: record_all_put_all)
  moreover have "st_limit s' = st_limit s"
    using record_all_Some [OF stats_safe_alloc [OF assms], of ns] s'(1) by auto
  ultimately show ?thesis by blast
qed

section \<open>Scans over \<open>min..=max\<close> as sums over the multiset\<close>

lemma sorted_range_incl: "sorted_wrt (<) (range_incl lo hi)"
proof -
  have "sorted_wrt (<) (map unat (range_incl lo hi))"
    unfolding map_unat_range_incl by (rule sorted_wrt_upt)
  then show ?thesis by (simp add: sorted_wrt_map flip: word_less_nat_alt)
qed

lemma distinct_range_incl: "distinct (range_incl lo hi)"
  using sorted_range_incl strict_sorted_iff by blast

lemma sum_count_mult:
  fixes f :: "'a \<Rightarrow> 'b :: comm_semiring_1"
  assumes "finite A" "set_mset M \<subseteq> A"
  shows "(\<Sum>x \<in> A. of_nat (count M x) * f x) = (\<Sum>x \<in># M. f x)"
  using assms(2)
proof (induction M)
  case (add y M)
  have "(\<Sum>x \<in> A. of_nat (count (add_mset y M) x) * f x)
      = (\<Sum>x \<in> A. of_nat (count M x) * f x + (if x = y then f x else 0))"
    by (intro sum.cong) (auto simp: algebra_simps)
  also have "\<dots> = (\<Sum>x \<in> A. of_nat (count M x) * f x) + f y"
    using add.prems assms(1) by (simp add: sum.distrib)
  finally show ?case using add by (simp add: add.commute)
qed simp

lemma members_in_range:
  assumes "represents s M"
  shows "set_mset M \<subseteq> set (range_incl (st_min s) (st_max s))"
  using assms by (auto simp: represents_def set_range_incl min_of_def max_of_def)

lemma bucket_count:
  assumes "represents s M" "size M < 2 ^ 64" "i < st_limit s"
  shows "unat (st_data s ! unat i) = count M i"
proof -
  have "count M i \<le> size M" by (rule count_le_size)
  then have "unat (of_nat (count M i) :: u64) = count M i"
    using assms(2) by (simp add: unat_of_nat)
  with assms show ?thesis by (simp add: represents_def)
qed

lemma range_below_limit:
  "represents s M \<Longrightarrow> i \<in> set (range_incl (st_min s) (st_max s)) \<Longrightarrow> i < st_limit s"
  by (auto simp: represents_def stats_safe_def set_range_incl)

lemma scan_sum:
  fixes f :: "u64 \<Rightarrow> nat"
  assumes "represents s M" "size M < 2 ^ 64"
  shows "(\<Sum>i\<leftarrow>range_incl (st_min s) (st_max s). unat (st_data s ! unat i) * f i) = (\<Sum>x \<in># M. f x)"
proof -
  let ?R = "range_incl (st_min s) (st_max s)"
  have "(\<Sum>i\<leftarrow>?R. unat (st_data s ! unat i) * f i) = (\<Sum>i \<in> set ?R. unat (st_data s ! unat i) * f i)"
    by (rule sum_list_distinct_conv_sum_set [OF distinct_range_incl])
  also have "\<dots> = (\<Sum>i \<in> set ?R. count M i * f i)"
    using bucket_count [OF assms] range_below_limit [OF assms(1)] by (intro sum.cong) auto
  also have "\<dots> = (\<Sum>x \<in># M. f x)"
    using sum_count_mult [of "set ?R" M f] members_in_range [OF assms(1)] by simp
  finally show ?thesis .
qed

lemma scan_part:
  assumes "represents s M" "size M < 2 ^ 64" "distinct is"
    "set is = {i \<in> set (range_incl (st_min s) (st_max s)). P i}"
  shows "(\<Sum>i\<leftarrow>is. unat (st_data s ! unat i)) = size {#x \<in># M. P x#}"
proof -
  have "(\<Sum>i\<leftarrow>is. unat (st_data s ! unat i)) = (\<Sum>i \<in> set is. count {#x \<in># M. P x#} i * 1)"
    unfolding sum_list_distinct_conv_sum_set [OF assms(3)]
    using bucket_count [OF assms(1,2)] range_below_limit [OF assms(1)] assms(4)
    by (intro sum.cong) auto
  also have "\<dots> = (\<Sum>x \<in># {#x \<in># M. P x#}. 1)"
    using sum_count_mult [of "set is" "{#x \<in># M. P x#}" "\<lambda>_. 1 :: nat"]
      members_in_range [OF assms(1)] assms(4) by auto
  finally show ?thesis by simp
qed

end
