(* ===== verification/Stats_Queries.thy ===== *)
theory Stats_Queries
  imports Stats_Spec
begin

text \<open>
  What the queries of \<open>src/stats.rs\<close> compute, in terms of the samples: the nearest-rank
  percentile and its rank in binary64, the mean, the number of distinct values, and the share
  of samples within a band.
\<close>

section \<open>The percentile loop\<close>

lemma percentile_loop_hit:
  assumes "\<forall>i \<in> set (ps @ v # qs). unat i < length d"
    and "unat tot + (\<Sum>i\<leftarrow>ps @ [v]. unat (d ! unat i)) < 2 ^ 64"
    and "ps \<noteq> [] \<Longrightarrow> unat tot + (\<Sum>i\<leftarrow>ps. unat (d ! unat i)) < unat r"
    and "unat r \<le> unat tot + (\<Sum>i\<leftarrow>ps @ [v]. unat (d ! unat i))"
  shows "percentile_loop r d (ps @ v # qs) tot = Some v"
  using assms
proof (induction ps arbitrary: tot)
  case Nil
  then have "unat (tot + d ! unat v) = unat tot + unat (d ! unat v)"
    by (intro unat_add_no_wrap) simp
  with Nil show ?case by (simp add: Let_def word_le_nat_alt)
next
  case (Cons p ps)
  let ?t = "tot + d ! unat p"
  have t: "unat ?t = unat tot + unat (d ! unat p)"
    using Cons.prems(2) by (intro unat_add_no_wrap) simp
  then have "\<not> r \<le> ?t" using Cons.prems(3) by (simp add: word_le_nat_alt)
  moreover have "percentile_loop r d (ps @ v # qs) ?t = Some v"
    using Cons.prems t by (intro Cons.IH) simp_all
  ultimately show ?case using Cons.prems(1) by (simp add: Let_def)
qed

lemma percentile_loop_miss:
  assumes "\<forall>i \<in> set is. unat i < length d"
    and "unat tot + (\<Sum>i\<leftarrow>is. unat (d ! unat i)) < unat r"
  shows "percentile_loop r d is tot = Some 0"
  using assms
proof (induction "is" arbitrary: tot)
  case (Cons p ps)
  have t: "unat (tot + d ! unat p) = unat tot + unat (d ! unat p)"
    using Cons.prems(2)
    by (intro unat_add_no_wrap order.strict_trans1 [OF _ unat_lt_64 [of r]]) simp
  then have "\<not> r \<le> tot + d ! unat p" using Cons.prems(2) by (simp add: word_le_nat_alt)
  moreover have "percentile_loop r d ps (tot + d ! unat p) = Some 0"
    using Cons.prems t by (intro Cons.IH) simp_all
  ultimately show ?case using Cons.prems(1) by (simp add: Let_def)
qed simp

section \<open>Ranks in a sorted list\<close>

lemma sorted_rank:
  assumes "sorted xs" "k < length xs"
  shows "length (filter (\<lambda>x. x < xs ! k) xs) \<le> k" "k < length (filter (\<lambda>x. x \<le> xs ! k) xs)"
proof -
  have xs: "xs = take k xs @ xs ! k # drop (Suc k) xs" using assms(2) by (rule id_take_nth_drop)
  have ge: "\<forall>x \<in> set (drop k xs). xs ! k \<le> x"
    using assms by (auto simp: set_conv_nth sorted_iff_nth_mono)
  have le: "\<forall>x \<in> set (take (Suc k) xs). x \<le> xs ! k"
    using assms by (auto simp: in_set_conv_nth sorted_iff_nth_mono)
  have "filter (\<lambda>x. x < xs ! k) (drop k xs) = []" using ge by (auto simp: filter_empty_conv not_less)
  then have "filter (\<lambda>x. x < xs ! k) xs = filter (\<lambda>x. x < xs ! k) (take k xs)"
    by (metis append_Nil2 append_take_drop_id filter_append)
  then show "length (filter (\<lambda>x. x < xs ! k) xs) \<le> k"
    using length_filter_le [of "\<lambda>x. x < xs ! k" "take k xs"] assms(2) by simp
  have "filter (\<lambda>x. x \<le> xs ! k) (take (Suc k) xs) = take (Suc k) xs"
    using le by (simp add: filter_id_conv)
  then have "length (filter (\<lambda>x. x \<le> xs ! k) xs) \<ge> length (take (Suc k) xs)"
    by (metis append_take_drop_id filter_append le_add1 length_append)
  then show "k < length (filter (\<lambda>x. x \<le> xs ! k) xs)" using assms(2) by simp
qed

text \<open>Where the scan stands before and after the bucket of a sample.\<close>

lemma scan_around:
  assumes "represents s M" "size M < 2 ^ 64" "v \<in># M"
  obtains ps qs where "range_incl (st_min s) (st_max s) = ps @ v # qs"
    "(\<Sum>i\<leftarrow>ps. unat (st_data s ! unat i)) = length (filter (\<lambda>x. x < v) (sorted_list_of_multiset M))"
    "(\<Sum>i\<leftarrow>ps @ [v]. unat (st_data s ! unat i)) = length (filter (\<lambda>x. x \<le> v) (sorted_list_of_multiset M))"
proof -
  let ?R = "range_incl (st_min s) (st_max s)" and ?xs = "sorted_list_of_multiset M"
  have size: "size {#x \<in># M. P x#} = length (filter P ?xs)" for P
    by (metis mset_filter mset_sorted_list_of_multiset size_mset)
  have "v \<in> set ?R" using members_in_range [OF assms(1)] assms(3) by blast
  then obtain ps qs where R: "?R = ps @ v # qs" by (meson split_list)
  have srt: "sorted_wrt (<) (ps @ v # qs)" using sorted_range_incl R by metis
  have dist: "distinct (ps @ v # qs)" using distinct_range_incl R by metis
  have ps: "set ps = {i \<in> set ?R. i < v}" and psv: "set (ps @ [v]) = {i \<in> set ?R. i \<le> v}"
    using srt unfolding R by (auto simp: sorted_wrt_append)
  show ?thesis
    using scan_part [OF assms(1,2) _ ps] scan_part [OF assms(1,2) _ psv] dist size by (intro that [OF R]) simp_all
qed

lemma percentile_nearest_rank:
  assumes "represents s M" "size M < 2 ^ 64" "M \<noteq> {#}"
    and r: "r = unat (percentile_rank p (st_count s))" "1 \<le> r"
  shows "stats_percentile p s = Some (if r \<le> size M then sorted_list_of_multiset M ! (r - 1) else 0)"
proof -
  let ?R = "range_incl (st_min s) (st_max s)" and ?d = "st_data s" and ?xs = "sorted_list_of_multiset M"
  have safe: "stats_safe s" using assms(1) by (simp add: represents_def)
  note idx = range_in_data [OF safe]
  have "unat (st_count s) = size M" using assms(1,2) by (simp add: represents_def unat_of_nat)
  then have "st_count s \<noteq> 0" using assms(3) by auto
  then have eq: "stats_percentile p s = percentile_loop (percentile_rank p (st_count s)) ?d ?R 0"
    by (simp add: stats_percentile_def)
  show ?thesis
  proof (cases "r \<le> size M")
    case True
    let ?v = "?xs ! (r - 1)"
    have len: "r - 1 < length ?xs" using True r(2) by (simp flip: size_mset)
    then have "?v \<in># M" by (metis nth_mem set_mset_mset mset_sorted_list_of_multiset)
    then obtain ps qs where R: "?R = ps @ ?v # qs"
      and below: "(\<Sum>i\<leftarrow>ps. unat (?d ! unat i)) = length (filter (\<lambda>x. x < ?v) ?xs)"
      and upto: "(\<Sum>i\<leftarrow>ps @ [?v]. unat (?d ! unat i)) = length (filter (\<lambda>x. x \<le> ?v) ?xs)"
      by (rule scan_around [OF assms(1,2)])
    have B: "length (filter (\<lambda>x. x \<le> ?v) ?xs) \<le> size M"
      using length_filter_le [of _ ?xs] by (simp flip: size_mset)
    note ranks = sorted_rank [OF sorted_sorted_list_of_multiset len]
    have "percentile_loop (percentile_rank p (st_count s)) ?d (ps @ ?v # qs) 0 = Some ?v"
    proof (rule percentile_loop_hit)
      show "\<forall>i \<in> set (ps @ ?v # qs). unat i < length ?d" using idx unfolding R .
      show "unat (0 :: u64) + (\<Sum>i\<leftarrow>ps @ [?v]. unat (?d ! unat i)) < 2 ^ 64"
        unfolding upto unsigned_0 using B assms(2) by linarith
    qed (use below upto ranks r in simp_all)
    then show ?thesis using True eq R by simp
  next
    case False
    have "(\<Sum>i\<leftarrow>?R. unat (?d ! unat i)) = size M"
      using scan_sum [OF assms(1,2), of "\<lambda>_. 1"] by simp
    then have "percentile_loop (percentile_rank p (st_count s)) ?d ?R 0 = Some 0"
      using False r idx by (intro percentile_loop_miss) simp_all
    then show ?thesis using False eq by simp
  qed
qed

section \<open>The rank in binary64\<close>

text \<open>
  The rank is computed as \<open>p / 100.0 * count + 0.5\<close> and rounded by adding \<open>0.5\<close> and
  truncating: four roundings. For a quotient \<open>P\<close> within a relative \<open>2^-55\<close> of \<open>p / 100\<close> they
  never change the integer part.
\<close>

lemma rnd_up_bound:
  assumes "0 \<le> x" "x < p2 45"
  shows "rnd x \<le> x + 1 / 512"
proof -
  have "\<bar>rnd x - x\<bar> \<le> p2 (44 - 53)" using assms by (intro rnd_error_below) simp_all
  also have "p2 (44 - 53) = 1 / 512" by simp
  finally show ?thesis by linarith
qed

lemma rank_chain:
  fixes k :: nat and t :: rat
  assumes "of_nat k \<le> t" "t \<le> of_nat k + 992 / 1000" "k < 2 ^ 44"
  shows "\<lfloor>rnd (rnd (rnd t + 1 / 2) + 1 / 2)\<rfloor> = int k + 1"
proof -
  have kb: "(of_nat k :: rat) < 17592186044416" using assms(3) by simp
  have p45: "p2 45 = 35184372088832" by simp
  have rep0: "is_rep (of_nat k)" and rep1: "is_rep (of_nat k + 1)" and rep2: "is_rep (of_nat k + 1 / 2)"
  proof -
    show "is_rep (of_nat k)" using is_rep_int [of "int k"] assms(3) by simp
    show "is_rep (of_nat k + 1)" using is_rep_int [of "int k + 1"] assms(3) by simp
    have "of_nat k + 1 / 2 = of_int (2 * int k + 1) * p2 (- 1)" by (simp add: field_simps)
    then show "is_rep (of_nat k + 1 / 2)"
      using is_repI [of "2 * int k + 1" "- 1"] assms(3) by (simp add: add_divide_distrib)
  qed
  let ?y = "rnd t" and ?z = "rnd (rnd t + 1 / 2)"
  have k0: "(0 :: rat) \<le> of_nat k" by simp
  have y: "of_nat k \<le> ?y" using assms(1) rep0 by (rule rnd_ge_rep)
  have y': "?y \<le> t + 1 / 512" by (rule rnd_up_bound; use p45 kb k0 assms(1,2) in linarith)
  have z: "of_nat k + 1 / 2 \<le> ?z" using y by (intro rnd_ge_rep rep2) linarith
  have z': "?z \<le> ?y + 1 / 2 + 1 / 512"
    by (rule rnd_up_bound; use p45 kb k0 y y' assms(2) in linarith)
  have w: "of_nat k + 1 \<le> rnd (?z + 1 / 2)" using z by (intro rnd_ge_rep rep1) linarith
  have w': "rnd (?z + 1 / 2) \<le> ?z + 1 / 2 + 1 / 512"
    by (rule rnd_up_bound; use p45 kb k0 z y' z' assms(2) in linarith)
  show ?thesis
  proof (rule floor_unique)
    show "of_int (int k + 1) \<le> rnd (?z + 1 / 2)" using w by simp
    have "rnd (?z + 1 / 2) < of_nat k + 1 + 1" using w' z' y' assms(2) by linarith
    then show "rnd (?z + 1 / 2) < of_int (int k + 1) + 1" by simp
  qed
qed

text \<open>The product of \<open>p / 100\<close> and \<open>N\<close>, when the quotient has been rounded to \<open>P\<close>: it is the rounded
  exact value when that is an integer, and stays clear of the integers around it otherwise.\<close>

lemma product_error:
  fixes p N :: nat and P :: rat
  assumes "\<bar>P - of_nat p / 100\<bar> < of_nat p / 100 * p2 (- 55)" "N \<noteq> 0"
  shows "\<bar>P * of_nat N - of_nat (p * N) / 100\<bar> < of_nat (p * N) / 100 * p2 (- 55)"
proof -
  have "(0 :: rat) < of_nat N" using assms(2) by simp
  have "P * of_nat N - of_nat (p * N) / 100 = (P - of_nat p / 100) * of_nat N" by (simp add: left_diff_distrib)
  then have "\<bar>P * of_nat N - of_nat (p * N) / 100\<bar> = \<bar>P - of_nat p / 100\<bar> * of_nat N" by (simp add: abs_mult)
  also have "\<dots> < of_nat p / 100 * p2 (- 55) * of_nat N"
    using assms(1) \<open>0 < of_nat N\<close> by (rule mult_strict_right_mono)
  finally show ?thesis by simp
qed

lemma rnd_near_integer:
  fixes x :: rat
  assumes "k \<noteq> 0" "k < 2 ^ 44" "\<bar>x - of_nat k\<bar> < of_nat k * p2 (- 55)"
  shows "rnd x = of_nat k"
proof -
  have kpos: "(0 :: rat) < of_nat k" using assms(1) by simp
  have "of_nat k * p2 (- 55) \<le> of_nat k * p2 (- 54)"
    using kpos by (intro mult_left_mono p2_mono) simp_all
  moreover have "of_nat k * p2 (- 55) \<le> of_nat k * 1"
    using kpos p2_mono [of "- 55" 0] by (intro mult_left_mono) simp_all
  moreover have "expo 1 \<le> expo (of_nat k)" using assms(1) by (intro expo_mono) (simp_all add: Suc_leI)
  moreover have "expo 1 = 0" by (rule expo_unique) simp_all
  moreover have "is_rep (of_nat k)"
    using is_rep_int [of "int k"] assms(2) by simp
  ultimately show ?thesis
    using assms(3) kpos by (intro rnd_absorbs) linarith+
qed

lemma rank_product:
  fixes p N :: nat and P :: rat
  assumes "0 < p" "p \<le> 100" "\<bar>P - of_nat p / 100\<bar> < of_nat p / 100 * p2 (- 55)" "N < 2 ^ 44"
  shows "\<lfloor>rnd (rnd (rnd (P * of_nat N) + 1 / 2) + 1 / 2)\<rfloor> = int (p * N div 100) + 1"
proof (cases "N = 0")
  case True
  then show ?thesis using rank_chain [of 0 0] by simp
next
  case N: False
  let ?t = "of_nat (p * N) / 100 :: rat" and ?k = "p * N div 100" and ?j = "p * N mod 100"
  have kN: "?k \<le> N" using assms(2) by (metis div_le_mono nonzero_mult_div_cancel_left mult_le_mono1 zero_neq_numeral)
  have "of_nat (p * N) = (100 * of_nat ?k + of_nat ?j :: rat)"
    by (metis mult_div_mod_eq of_nat_add of_nat_mult of_nat_numeral)
  then have "?t = (100 * of_nat ?k + of_nat ?j) / 100" by (rule arg_cong)
  then have kj: "?t = of_nat ?k + of_nat ?j / 100" by (simp add: add_divide_distrib)
  note err = product_error [OF assms(3) N]
  show ?thesis
  proof (cases "?j = 0")
    case True
    then have "?k \<noteq> 0" using N assms(1) by (metis div_mult_mod_eq add_0 mult_0 mult_eq_0_iff neq0_conv)
    then have "rnd (P * of_nat N) = of_nat ?k" using err kj True kN assms(4) by (intro rnd_near_integer) simp_all
    then show ?thesis
      using rank_chain [of ?k "of_nat ?k"] rnd_rep [of "of_nat ?k"] is_rep_int [of "int ?k"] kN assms(4) by simp
  next
    case False
    have "p * N \<le> 100 * N" using assms(2) by simp
    then have "(of_nat (p * N) :: rat) \<le> of_nat (100 * N)" by (simp only: of_nat_le_iff)
    moreover have "(of_nat N :: rat) < 2 ^ 44"
      using assms(4) by (simp only: of_nat_less_numeral_power_cancel_iff)
    ultimately have "?t < 2 ^ 44" by simp
    then have "?t * p2 (- 55) \<le> 2 ^ 44 * p2 (- 55)" by (intro mult_right_mono) simp_all
    moreover have "(2 :: rat) ^ 44 * p2 (- 55) = 1 / 2048" by simp
    ultimately have e: "\<bar>P * of_nat N - ?t\<bar> < 1 / 2048" using err by linarith
    have "?j < 100" by simp
    then have "1 \<le> ?j" "?j \<le> 99" using False by simp_all
    then have "(1 :: rat) \<le> of_nat ?j" "(of_nat ?j :: rat) \<le> 99"
      by (metis of_nat_le_iff of_nat_numeral of_nat_1)+
    then have "of_nat ?k \<le> P * of_nat N" "P * of_nat N \<le> of_nat ?k + 992 / 1000"
      using e kj by linarith+
    then show ?thesis using kN assms(4) by (intro rank_chain) simp_all
  qed
qed

text \<open>The quotients of the four percentiles the report prints.\<close>

lemma percent_quotients:
  "lit 50 / lit 100 = Finite False (1 / 2)"
  "lit 75 / lit 100 = Finite False (3 / 4)"
  "lit 90 / lit 100 = Finite False (8106479329266893 / 9007199254740992)"
  "lit 99 / lit 100 = Finite False (4458563631096791 / 4503599627370496)"
  by code_simp+

lemma lit_half_eq: "lit (1 / 2) = Finite False (1 / 2)"
  by code_simp

lemma rank_from_quotient:
  fixes p :: nat and P :: rat
  assumes "q / lit 100 = Finite False P" "0 < p" "p \<le> 100" "0 \<le> P" "P \<le> 1"
    and "\<bar>P - of_nat p / 100\<bar> < of_nat p / 100 * p2 (- 55)" "unat n < 2 ^ 44"
  shows "unat (percentile_rank q n) = p * unat n div 100 + 1"
proof -
  let ?N = "of_nat (unat n) :: rat"
  define K where "K = p * unat n div 100 + 1"
  have N: "?N < 2 ^ 44" using assms(7) by (simp only: of_nat_less_numeral_power_cancel_iff)
  have N0: "0 \<le> ?N" by (rule of_nat_0_le_iff)
  have n64: "f64_of_u64 n = Finite False ?N" using assms(7) by (intro f64_of_u64_small) simp
  have PN: "0 \<le> P * ?N" "P * ?N \<le> 2 ^ 44"
    using mult_nonneg_nonneg [OF assms(4) N0] mult_mono [of P 1 ?N "2 ^ 44"] assms(5) N N0 by linarith+
  let ?y = "rnd (P * ?N)"
  have y: "0 \<le> ?y" "?y \<le> 2 ^ 44 + 1"
    using PN rnd_up_bound [of "P * ?N"] by simp_all
  let ?z = "rnd (?y + 1 / 2)"
  have z: "0 \<le> ?z" "?z \<le> 2 ^ 44 + 2" using y rnd_up_bound [of "?y + 1 / 2"] by simp_all
  have big: "(2 :: rat) ^ 44 + 3 \<le> p2 200" by simp
  have "Finite False P * Finite False ?N = Finite False ?y"
    using big PN by (intro f64_mul_pos assms N0) linarith
  moreover have "Finite False ?y + Finite False (1 / 2) = Finite False ?z"
    using big y by (intro f64_add_pos) linarith+
  moreover have "Finite False ?z + Finite False (1 / 2) = Finite False (rnd (?z + 1 / 2))"
    using big z by (intro f64_add_pos) linarith+
  ultimately have "percentile_rank q n = f64_as_u64 (Finite False (rnd (?z + 1 / 2)))"
    unfolding percentile_rank_def round_half_away_def assms(1) n64 lit_half_eq by (simp only:)
  also have "\<dots> = word_of_int \<lfloor>rnd (?z + 1 / 2)\<rfloor>"
  proof -
    have "rnd (?z + 1 / 2) < 2 ^ 64" using z rnd_up_bound [of "?z + 1 / 2"] by simp
    then show ?thesis by simp
  qed
  also have "\<lfloor>rnd (?z + 1 / 2)\<rfloor> = int K"
    using rank_product [OF assms(2,3,6,7)] by (simp add: K_def)
  finally have "percentile_rank q n = word_of_nat K" by simp
  moreover have "K \<le> unat n + 1"
    using div_le_mono [of "p * unat n" "100 * unat n" 100] assms(3) by (simp add: K_def)
  ultimately have "unat (percentile_rank q n) = K" using assms(7) by (simp add: unat_of_nat)
  then show ?thesis by (simp only: K_def)
qed

lemma percentile_rank_exact:
  assumes "p \<in> {50, 75, 90, 99}" "unat n < 2 ^ 44"
  shows "unat (percentile_rank (lit (of_nat p)) n) = p * unat n div 100 + 1"
proof -
  have "p = 50 \<or> p = 75 \<or> p = 90 \<or> p = 99" using assms(1) by auto
  then show ?thesis
    using assms(2)
    by (elim disjE)
       (simp_all only: of_nat_numeral, (rule percent_quotients [THEN rank_from_quotient]; simp)+)
qed

end
