(* ===== verification/Stats_Moments.thy ===== *)
theory Stats_Moments
  imports Stats_Queries
begin

text \<open>
  The mean, the standard deviation, the share of samples within a band and the number of
  distinct values of \<open>src/stats.rs\<close>, as functions of the recorded samples.
\<close>

section \<open>Counts\<close>

lemma unat_st_count:
  "represents s M \<Longrightarrow> size M < 2 ^ 64 \<Longrightarrow> unat (st_count s) = size M"
  by (simp add: represents_def unat_of_nat)

lemma st_count_zero_iff:
  "represents s M \<Longrightarrow> size M < 2 ^ 64 \<Longrightarrow> st_count s = 0 \<longleftrightarrow> M = {#}"
  using unat_st_count [of s M] by (metis size_eq_0_iff_empty unsigned_0 unsigned_word_eqI)

text \<open>The buckets in use are those of the distinct samples.\<close>

lemma filled_buckets:
  assumes "represents s M" "size M < 2 ^ 64"
  shows "length (filter (\<lambda>i. 0 < st_data s ! unat i) (range_incl (st_min s) (st_max s))) = card (set_mset M)"
proof -
  let ?R = "range_incl (st_min s) (st_max s)"
  have "0 < st_data s ! unat i \<longleftrightarrow> i \<in># M" if "i \<in> set ?R" for i
    using bucket_count [OF assms range_below_limit [OF assms(1) that]]
    by (simp add: word_less_nat_alt)
  then have "set (filter (\<lambda>i. 0 < st_data s ! unat i) ?R) = set_mset M"
    using members_in_range [OF assms(1)] by auto
  then show ?thesis using distinct_card distinct_filter distinct_range_incl by metis
qed

lemma popcount_distinct:
  assumes "represents s M" "size M < 2 ^ 64"
  shows "stats_popcount s = Some (of_nat (card (set_mset M)))"
proof -
  have safe: "stats_safe s" using assms(1) by (simp add: represents_def)
  show ?thesis
    by (simp add: stats_popcount_def popcount_loop_Some [OF range_in_data [OF safe]] filled_buckets [OF assms])
qed

section \<open>The mean\<close>

lemma sum_mset_le_size:
  fixes f :: "'a \<Rightarrow> nat"
  assumes "\<forall>x \<in># M. f x \<le> b"
  shows "(\<Sum>x \<in># M. f x) \<le> size M * b"
  using assms by (induction M) auto

lemma sum_mset_ge_size:
  fixes f :: "'a \<Rightarrow> nat"
  assumes "\<forall>x \<in># M. a \<le> f x"
  shows "size M * a \<le> (\<Sum>x \<in># M. f x)"
  using assms by (induction M) auto

lemma sample_bounds:
  assumes "represents s M" "x \<in># M"
  shows "unat x < 2 ^ 60" "unat (st_min s) \<le> unat x" "unat x \<le> unat (st_max s)"
proof -
  have "x \<in> {st_min s..st_max s}"
    using members_in_range [OF assms(1)] assms(2) by (auto simp: set_range_incl)
  moreover have "x < st_limit s" "stats_safe s" using assms by (auto simp: represents_def)
  ultimately show "unat x < 2 ^ 60" "unat (st_min s) \<le> unat x" "unat x \<le> unat (st_max s)"
    by (auto simp: stats_safe_def word_less_nat_alt word_le_nat_alt)
qed

lemma mean_loop_exact:
  assumes "represents s M" "size M < 2 ^ 64"
  shows "\<exists>w. mean_loop (st_data s) (range_incl (st_min s) (st_max s)) 0 = Some w
    \<and> unat w = (\<Sum>x \<in># M. unat x)"
proof -
  let ?R = "range_incl (st_min s) (st_max s)" and ?d = "st_data s"
  let ?p = "\<lambda>i. ucast (?d ! unat i) * ucast i :: u128"
  have safe: "stats_safe s" using assms(1) by (simp add: represents_def)
  have prod: "unat (?p i) = unat (?d ! unat i) * unat i" for i :: u64
  proof -
    have "unat (?d ! unat i) * unat i < 2 ^ 64 * 2 ^ 64"
      using unat_lt_64 [of "?d ! unat i"] unat_lt_64 [of i] by (intro mult_strict_mono) simp_all
    then show ?thesis by (simp add: unat_word_ariths unsigned_ucast_eq take_bit_nat_eq_self order.strict_trans [OF unat_lt_64])
  qed
  have S: "(\<Sum>i\<leftarrow>?R. unat (?p i)) = (\<Sum>x \<in># M. unat x)"
    using scan_sum [OF assms, of unat] by (simp add: prod)
  have "(\<Sum>x \<in># M. unat x) \<le> size M * 2 ^ 60"
    using sample_bounds(1) [OF assms(1)] by (intro sum_mset_le_size) (auto intro: less_imp_le)
  also have "\<dots> < 2 ^ 128" using assms(2) by simp
  finally have "unat (sum_list (map ?p ?R)) = (\<Sum>x \<in># M. unat x)"
    using unat_sum_list_no_wrap [of "map ?p ?R"] S by (simp add: comp_def)
  then show ?thesis using mean_loop_Some [OF range_in_data [OF safe], of 0] by simp
qed

lemma of_nat_le_53: "k \<le> 2 ^ 53 \<Longrightarrow> (of_nat k :: rat) \<le> 2 ^ 53"
  by (simp only: of_nat_le_numeral_power_cancel_iff)

lemma mean_rounded:
  assumes "represents s M" "M \<noteq> {#}" "size M \<le> 2 ^ 53" "(\<Sum>x \<in># M. unat x) \<le> 2 ^ 53"
  shows "stats_mean s = Some (Finite False (rnd (of_nat (\<Sum>x \<in># M. unat x) / of_nat (size M))))"
proof -
  have M: "size M < 2 ^ 64" using assms(3) by simp
  define S where "S = (\<Sum>x \<in># M. unat x)"
  obtain w where w: "mean_loop (st_data s) (range_incl (st_min s) (st_max s)) 0 = Some w"
    "unat w = S" using mean_loop_exact [OF assms(1) M] S_def by blast
  have "uint w = int S" using w(2) by (metis uint_nat)
  moreover have "fl False (of_int (int S)) = Finite False (of_int (int S))"
    using assms(4) unfolding S_def [symmetric] by (intro fl_int) auto
  ultimately have num: "f64_of_u128 w = Finite False (of_nat S)" by (simp add: f64_of_u128_def)
  have den: "f64_of_u64 (st_count s) = Finite False (of_nat (size M))"
    using f64_of_u64_small [of "st_count s"] unat_st_count [OF assms(1) M] assms(3) by simp
  have one: "1 \<le> (of_nat (size M) :: rat)" using assms(2) by (simp add: Suc_le_eq nonempty_has_size)
  have "(of_nat S :: rat) / of_nat (size M) \<le> of_nat S / 1"
    using one by (intro divide_left_mono) simp_all
  also have "\<dots> \<le> p2 200"
    using of_nat_le_53 [OF assms(4)] p2_mono [of 53 200] unfolding S_def [symmetric] by (simp add: p2_53)
  finally have "Finite False (of_nat S) / Finite False (of_nat (size M))
      = Finite False (rnd (of_nat S / of_nat (size M)))"
    using one by (intro f64_div_pos) simp_all
  then show ?thesis
    unfolding S_def [symmetric]
    using w(1) num den st_count_zero_iff [OF assms(1) M] assms(2) by (simp add: stats_mean_def)
qed

lemma max_member: "represents s M \<Longrightarrow> M \<noteq> {#} \<Longrightarrow> st_max s \<in># M"
  using Max_in [of "set_mset M"] by (simp add: represents_def max_of_def)

lemma mean_in_band:
  assumes "represents s M" "M \<noteq> {#}" "size M \<le> 2 ^ 53" "(\<Sum>x \<in># M. unat x) \<le> 2 ^ 53"
  defines "S \<equiv> (\<Sum>x \<in># M. unat x)"
  shows "size M * unat (st_min s) \<le> S" "S \<le> size M * unat (st_max s)" "unat (st_max s) \<le> 2 ^ 53"
proof -
  show "size M * unat (st_min s) \<le> S" "S \<le> size M * unat (st_max s)"
    using sample_bounds [OF assms(1)] unfolding S_def
    by (auto intro!: sum_mset_ge_size sum_mset_le_size)
  obtain N where "M = add_mset (st_max s) N" using max_member [OF assms(1,2)] by (metis multi_member_split)
  then show "unat (st_max s) \<le> 2 ^ 53" using assms(4) by simp
qed

lemma mean_between:
  assumes "represents s M" "M \<noteq> {#}" "size M \<le> 2 ^ 53" "(\<Sum>x \<in># M. unat x) \<le> 2 ^ 53"
  shows "f64_of_u64 (st_min s) \<le> the (stats_mean s) \<and> the (stats_mean s) \<le> f64_of_u64 (st_max s)"
proof -
  define S where "S = (\<Sum>x \<in># M. unat x)"
  define n where "n = size M"
  have n: "0 < (of_nat n :: rat)" using assms(2) by (simp add: n_def nonempty_has_size)
  note band = mean_in_band [OF assms, folded S_def n_def]
  have lb: "of_nat (unat (st_min s)) \<le> (of_nat S / of_nat n :: rat)"
    using band(1) n by (simp add: pos_le_divide_eq mult.commute del: of_nat_unat of_nat_mult flip: of_nat_mult)
  have ub: "(of_nat S / of_nat n :: rat) \<le> of_nat (unat (st_max s))"
    using band(2) n by (simp add: pos_divide_le_eq mult.commute del: of_nat_unat of_nat_mult flip: of_nat_mult)
  have "of_nat (unat (st_min s)) \<le> (of_nat (unat (st_max s)) :: rat)" using lb ub by linarith
  then have min_le: "unat (st_min s) \<le> unat (st_max s)" by (simp only: of_nat_le_iff)
  have rep: "is_rep (of_nat k)" if "k \<le> 2 ^ 53" for k
    using is_rep_int [of "int k"] that by simp
  have "of_nat (unat (st_min s)) \<le> rnd (of_nat S / of_nat n)"
    using min_le band(3) by (intro rnd_ge_rep lb rep) linarith
  moreover have "rnd (of_nat S / of_nat n) \<le> of_nat (unat (st_max s))"
    by (intro rnd_le_rep ub rep band(3)) simp_all
  moreover have "unat (st_min s) \<le> 2 ^ 53" using min_le band(3) by linarith
  ultimately show ?thesis
    unfolding mean_rounded [OF assms, folded S_def n_def] f64_of_u64_small [OF band(3)]
    by (simp add: f64_of_u64_small del: of_nat_unat)
qed

section \<open>The share of samples within a band\<close>

lemma within_count:
  assumes "represents s M" "size M < 2 ^ 64" "M \<noteq> {#}"
    and "upper = mean + stdev * n" "lower = mean - stdev * n"
  shows "\<exists>w. stats_within_stdev mean stdev n s = Some (f64_of_u64 w / f64_of_u64 (st_count s) * lit 100)
    \<and> unat w = size {#x \<in># M. lower \<le> f64_of_u64 x \<and> f64_of_u64 x \<le> upper#}"
proof -
  let ?R = "range_incl (st_min s) (st_max s)"
  let ?P = "\<lambda>i. lower \<le> f64_of_u64 i \<and> f64_of_u64 i \<le> upper"
  let ?ws = "map (\<lambda>i. st_data s ! unat i) (filter ?P ?R)"
  have safe: "stats_safe s" using assms(1) by (simp add: represents_def)
  have S: "(\<Sum>i\<leftarrow>filter ?P ?R. unat (st_data s ! unat i)) = size {#x \<in># M. ?P x#}"
    using distinct_range_incl by (intro scan_part [OF assms(1,2)]) auto
  moreover have "size {#x \<in># M. ?P x#} \<le> size M" by (rule size_filter_mset_lesseq)
  ultimately have "(\<Sum>i\<leftarrow>filter ?P ?R. unat (st_data s ! unat i)) < 2 ^ 64" using assms(2) by linarith
  then have "unat (sum_list ?ws) = size {#x \<in># M. ?P x#}"
    using unat_sum_list_no_wrap [of ?ws] S by (simp add: comp_def)
  moreover have "stats_within_stdev mean stdev n s =
      Some (f64_of_u64 (sum_list ?ws) / f64_of_u64 (st_count s) * lit 100)"
    using st_count_zero_iff [OF assms(1,2)] assms(3-5)
    by (simp add: stats_within_stdev_def Let_def within_loop_Some [OF range_in_data [OF safe]])
  ultimately show ?thesis by blast
qed

lemma percentage_bound:
  assumes "unat w \<le> unat c" "0 < unat c" "unat c \<le> 2 ^ 53"
  shows "\<exists>r. f64_of_u64 w / f64_of_u64 c * lit 100 = Finite False r \<and> 0 \<le> r \<and> r \<le> 100
    \<and> (w = c \<longrightarrow> r = 100)"
proof -
  let ?q = "of_nat (unat w) / of_nat (unat c) :: rat"
  have c: "(0 :: rat) < of_nat (unat c)" using assms(2) by (simp del: of_nat_unat)
  have "(of_nat (unat w) :: rat) \<le> of_nat (unat c)" using assms(1) by (simp only: of_nat_le_iff)
  then have q: "0 \<le> ?q" "?q \<le> 1" using c by (simp_all add: pos_divide_le_eq del: of_nat_unat)
  have one: "is_rep 1" and hundred: "is_rep 100" using is_rep_int [of 1] is_rep_numeral by simp_all
  have r1: "0 \<le> rnd ?q" "rnd ?q \<le> 1" using q one by (auto intro: rnd_le_rep)
  then have r2: "0 \<le> rnd (rnd ?q * 100)" "rnd (rnd ?q * 100) \<le> 100"
    using hundred by (auto intro: rnd_le_rep)
  have big: "(100 :: rat) \<le> p2 200" by simp
  have "f64_of_u64 w / f64_of_u64 c = Finite False (rnd ?q)"
    using assms q c big unfolding f64_of_u64_small [OF assms(3)] f64_of_u64_small [OF order.trans [OF assms(1,3)]]
    by (intro f64_div_pos) linarith+
  moreover have "Finite False (rnd ?q) * lit 100 = Finite False (rnd (rnd ?q * 100))"
    using r1 big unfolding lit_numeral [of "Num.Bit0 (Num.Bit0 (Num.Bit1 (Num.Bit0 (Num.Bit0 (Num.Bit1 Num.One)))))", simplified]
    by (intro f64_mul_pos) linarith+
  moreover have "rnd (rnd ?q * 100) = 100" if "w = c"
    using that c one hundred by (simp add: rnd_rep)
  ultimately show ?thesis using r2 by auto
qed

section \<open>Runs with one value\<close>

lemma f64_zero_ops:
  "Finite False r - Finite False r = Finite False 0"
  "Finite False 0 * Finite False r = Finite False 0"
  "Finite False 0 + Finite False 0 = Finite False 0"
  "0 < r \<Longrightarrow> Finite False 0 / Finite False r = Finite False 0"
  "lit 0 = Finite False 0"
  using fl_int [of 0 False]
  by (simp_all add: f64_op_defs lit_def signed_val_def Let_def)

lemma is_rep_of_nat: "k \<le> 2 ^ 53 \<Longrightarrow> is_rep (of_nat k)"
  using is_rep_int [of "int k"] by simp

lemma fl_of_nat: "k \<le> 2 ^ 53 \<Longrightarrow> fl s (of_nat k) = Finite s (of_nat k)"
  using fl_int [of "int k" s] by simp

lemma f64_add_zero:
  assumes "unat v \<le> 2 ^ 53"
  shows "f64_of_u64 v + Finite False 0 = f64_of_u64 v" "f64_of_u64 v - Finite False 0 = f64_of_u64 v"
proof -
  have "fl False (of_nat (unat v)) = Finite False (of_nat (unat v))"
    using assms by (rule fl_of_nat)
  then show "f64_of_u64 v + Finite False 0 = f64_of_u64 v" "f64_of_u64 v - Finite False 0 = f64_of_u64 v"
    unfolding f64_of_u64_small [OF assms]
    by (simp_all add: f64_op_defs signed_val_def Let_def del: of_nat_unat)
qed

lemma uniform_mean:
  assumes "represents s (replicate_mset n v)" "0 < n" "n \<le> 2 ^ 53" "n * unat v \<le> 2 ^ 53"
  shows "stats_mean s = Some (f64_of_u64 v)" "unat v \<le> 2 ^ 53"
proof -
  have "1 * unat v \<le> n * unat v" using assms(2) by (intro mult_le_mono1) simp
  then show v: "unat v \<le> 2 ^ 53" using assms(4) by linarith
  have S: "(\<Sum>x \<in># replicate_mset n v. unat x) = n * unat v" by simp
  have "replicate_mset n v \<noteq> {#}" using assms(2) by simp
  then have "stats_mean s = Some (Finite False (rnd (of_nat (n * unat v) / of_nat n)))"
    using mean_rounded [OF assms(1)] assms(3,4) unfolding S size_replicate_mset by simp
  moreover have "rnd (of_nat (unat v)) = of_nat (unat v)"
    using is_rep_of_nat [OF v] by (rule rnd_rep)
  moreover have "of_nat (n * unat v) / of_nat n = (of_nat (unat v) :: rat)"
    using assms(2) by (simp del: of_nat_unat)
  ultimately show "stats_mean s = Some (f64_of_u64 v)" by (simp only: f64_of_u64_small [OF v])
qed

lemma uniform_stdev:
  assumes "represents s (replicate_mset n v)" "0 < n" "n \<le> 2 ^ 53" "unat v \<le> 2 ^ 53"
  shows "stats_stdev (f64_of_u64 v) s = Some (Finite False 0)"
proof -
  have n: "unat (st_count s) = n" using unat_st_count [OF assms(1)] assms(3) by simp
  have mm: "st_min s = v" "st_max s = v" "unat v < length (st_data s)"
    "st_data s ! unat v = of_nat n"
    using assms(1,2) stats_safeD(2) [of s]
    by (auto simp: represents_def min_of_def max_of_def)
  have "unat (of_nat n :: u64) = n" using assms(3) by (simp add: unat_of_nat)
  then have c: "f64_of_u64 (of_nat n) = Finite False (of_nat n)" using assms(3) f64_of_u64_small [of "of_nat n"] by simp
  have loop: "stdev_loop (f64_of_u64 v) (st_data s) [v] (Finite False 0) = Some (Finite False 0)"
    using mm c by (simp add: f64_of_u64_small [OF assms(4)] f64_zero_ops Let_def del: of_nat_unat)
  show ?thesis
  proof (cases "st_count s < 2")
    case False
    then have "2 \<le> n" using n by (simp add: word_less_nat_alt)
    then have u: "unat (st_count s - 1) = n - 1" using n by (simp add: unat_sub word_le_nat_alt)
    have "f64_of_u64 (st_count s - 1) = Finite False (of_nat (n - 1))"
      using f64_of_u64_small [of "st_count s - 1"] u assms(3) by simp
    moreover have "(0 :: rat) < of_nat (n - 1)" using \<open>2 \<le> n\<close> by simp
    ultimately show ?thesis
      using False loop mm by (simp add: stats_stdev_def range_incl_def f64_zero_ops)
  qed (simp add: stats_stdev_def f64_zero_ops)
qed

end
