(* ===== verification/Stats_Deviation.thy ===== *)
theory Stats_Deviation
  imports Stats_Moments
begin

text \<open>
  The accuracy of \<open>Stats::stdev\<close>. Every operation of its loop makes a relative error of at most
  \<open>2^-53\<close>, and none can cancel another's leading digits, as the squares are not negative; so the
  error of the result is bounded by the number of operations that a term goes through.
\<close>

section \<open>The integer square root\<close>

lemma isqrt_bounds: "0 \<le> n \<Longrightarrow> 0 \<le> isqrt n \<and> isqrt n * isqrt n \<le> n \<and> n < (isqrt n + 1) * (isqrt n + 1)"
proof (induction n rule: isqrt.induct)
  case (1 n)
  show ?case
  proof (cases "n = 0")
    case False
    define r where "r = isqrt (n div 4)"
    have IH: "0 \<le> r" "r * r \<le> n div 4" "n div 4 < (r + 1) * (r + 1)"
      using 1 False by (simp_all add: r_def)
    have "4 * (r * r) \<le> n" using IH(2) by linarith
    moreover have "n < 4 * ((r + 1) * (r + 1))"
    proof -
      have "n div 4 + 1 \<le> (r + 1) * (r + 1)" using IH(3) by linarith
      then show ?thesis by linarith
    qed
    moreover have "isqrt n = (if (2 * r + 1) * (2 * r + 1) \<le> n then 2 * r + 1 else 2 * r)"
      using False 1(2) by (subst isqrt.simps) (simp add: Let_def r_def)
    ultimately show ?thesis using IH(1) by (simp add: algebra_simps)
  qed (simp add: isqrt.simps)
qed

section \<open>Relative errors\<close>

definition ulp :: rat where "ulp = p2 (- 53)"

lemma ulp_small: "0 < ulp" "0 < 1 - ulp" "1 - ulp < 1" "1 < 1 + ulp" "ulp \<le> 1" "0 \<le> 1 - ulp" "0 \<le> 1 + ulp"
    "ulp * ulp \<le> 1"
  by (simp_all add: ulp_def)

text \<open>\<open>a\<close> is \<open>A\<close> up to \<open>k\<close> relative errors.\<close>

definition near :: "nat \<Rightarrow> rat \<Rightarrow> rat \<Rightarrow> bool" where
  "near k a A \<longleftrightarrow> 0 \<le> A \<and> (1 - ulp) ^ k * A \<le> a \<and> a \<le> (1 + ulp) ^ k * A"

lemma near_refl: "0 \<le> A \<Longrightarrow> near 0 A A"
  by (simp add: near_def)

lemma near_mono: "near k a A \<Longrightarrow> k \<le> l \<Longrightarrow> near l a A"
proof -
  assume a: "near k a A" and l: "k \<le> l"
  then have A: "0 \<le> A" by (simp add: near_def)
  have "(1 - ulp) ^ l * A \<le> (1 - ulp) ^ k * A"
    using l A ulp_small by (intro mult_right_mono power_decreasing) simp_all
  moreover have "(1 + ulp) ^ k * A \<le> (1 + ulp) ^ l * A"
    using l A ulp_small by (intro mult_right_mono power_increasing) simp_all
  ultimately show ?thesis using a by (simp add: near_def)
qed

lemma near_add: "near k a A \<Longrightarrow> near k b B \<Longrightarrow> near k (a + b) (A + B)"
  by (simp add: near_def distrib_left add_mono)

lemma near_scale: "near k a A \<Longrightarrow> 0 \<le> c \<Longrightarrow> near k (a * c) (A * c)"
  using mult_right_mono [of _ _ c] by (fastforce simp: near_def mult.assoc)

lemma near_nonneg: "near k a A \<Longrightarrow> 0 \<le> a"
proof -
  assume "near k a A"
  then have "0 \<le> (1 - ulp) ^ k * A" "(1 - ulp) ^ k * A \<le> a"
    using ulp_small(2) by (auto simp: near_def intro!: mult_nonneg_nonneg zero_le_power)
  then show ?thesis by linarith
qed

lemma near_square: "near k a A \<Longrightarrow> near (2 * k) (a * a) (A * A)"
proof -
  assume a: "near k a A"
  have "0 \<le> (1 - ulp) ^ k * A" using a ulp_small(2) by (auto simp: near_def intro!: mult_nonneg_nonneg zero_le_power)
  then have "((1 - ulp) ^ k * A) * ((1 - ulp) ^ k * A) \<le> a * a"
    using a by (intro mult_mono') (simp_all add: near_def)
  moreover have "a * a \<le> ((1 + ulp) ^ k * A) * ((1 + ulp) ^ k * A)"
    using a near_nonneg [OF a] by (intro mult_mono') (simp_all add: near_def)
  ultimately show ?thesis using a by (simp add: near_def mult_2 power_add mult.assoc mult.left_commute)
qed

text \<open>Up to \<open>2^51\<close> errors change a value by less than a factor of two.\<close>

lemma bernoulli: "0 \<le> x \<Longrightarrow> x \<le> 1 \<Longrightarrow> 1 - of_nat k * x \<le> (1 - x) ^ k" for x :: rat
proof (induction k)
  case (Suc k)
  have "1 - of_nat (Suc k) * x \<le> (1 - of_nat k * x) * (1 - x)"
    using Suc.prems by (simp add: algebra_simps)
  also have "\<dots> \<le> (1 - x) ^ k * (1 - x)" using Suc by (intro mult_right_mono) simp_all
  finally show ?case by (simp add: mult.commute)
qed simp

lemma error_factors:
  assumes "k \<le> 2 ^ 52"
  shows "1 / 2 \<le> (1 - ulp) ^ k" "(1 + ulp) ^ k \<le> 2"
proof -
  have "(of_nat k :: rat) \<le> p2 52"
    using of_nat_mono [OF assms, where 'a = rat] by simp
  then have "of_nat k * ulp \<le> p2 52 * ulp" using ulp_small by (intro mult_right_mono) simp_all
  then have "of_nat k * ulp \<le> 1 / 2" by (simp add: ulp_def)
  then show lb: "1 / 2 \<le> (1 - ulp) ^ k" using bernoulli [of ulp k] ulp_small by simp
  have "(1 + ulp) * (1 - ulp) = 1 - ulp * ulp" by (simp add: algebra_simps)
  then have "((1 + ulp) * (1 - ulp)) ^ k \<le> 1" using ulp_small by (intro power_le_one) simp_all
  then have "(1 + ulp) ^ k * (1 - ulp) ^ k \<le> 1" by (simp only: power_mult_distrib)
  moreover have "(1 + ulp) ^ k * (1 / 2) \<le> (1 + ulp) ^ k * (1 - ulp) ^ k"
    using lb ulp_small by (intro mult_left_mono) simp_all
  ultimately show "(1 + ulp) ^ k \<le> 2" by linarith
qed

lemma near_bounds:
  assumes "near k a A" "k \<le> 2 ^ 52"
  shows "A / 2 \<le> a" "a \<le> 2 * A"
proof -
  have A: "0 \<le> A" using assms(1) by (simp add: near_def)
  note mult_right_mono [OF error_factors(1) [OF assms(2)] A] mult_right_mono [OF error_factors(2) [OF assms(2)] A]
  with assms(1) show "A / 2 \<le> a" "a \<le> 2 * A" unfolding near_def by linarith+
qed

section \<open>One more rounding\<close>

text \<open>Values that are zero or above the range of the subnormal numbers.\<close>

definition ordinary :: "rat \<Rightarrow> bool" where
  "ordinary x \<longleftrightarrow> x = 0 \<or> p2 (- 1000) \<le> x"

lemma rnd_relative:
  assumes "ordinary x"
  shows "\<bar>rnd x - x\<bar> \<le> x * ulp"
proof (cases "x = 0")
  case False
  then have x: "p2 (- 1000) \<le> x" using assms by (simp add: ordinary_def)
  then have pos: "0 < x" using p2_pos [of "- 1000"] by linarith
  have "expo (p2 (- 1000)) = - 1000" by (rule expo_unique) (simp_all add: p2_less_iff)
  then have "- 1000 \<le> expo x" using expo_mono [OF _ x] by simp
  then have "ulp_exp x = expo x - 52" by (simp add: ulp_exp_def)
  then have "p2 (ulp_exp x) / 2 = p2 (expo x) * ulp" by (simp add: p2_diff ulp_def)
  also have "\<dots> \<le> x * ulp" using expo_bounds [OF pos] ulp_small by (intro mult_right_mono) simp_all
  finally show ?thesis using rnd_error [OF pos] by linarith
qed simp

lemma near_rnd:
  assumes "near k a A" "ordinary a"
  shows "near (Suc k) (rnd a) A"
proof -
  have "\<bar>rnd a - a\<bar> \<le> a * ulp" by (rule rnd_relative [OF assms(2)])
  then have r: "(1 - ulp) * a \<le> rnd a" "rnd a \<le> (1 + ulp) * a" unfolding left_diff_distrib distrib_right mult_1_left by (simp_all add: mult.commute [of ulp] abs_le_iff)
  have "(1 - ulp) * ((1 - ulp) ^ k * A) \<le> (1 - ulp) * a" "(1 + ulp) * a \<le> (1 + ulp) * ((1 + ulp) ^ k * A)"
    using assms(1) ulp_small by (auto simp: near_def intro!: mult_left_mono)
  then show ?thesis using r assms(1) unfolding near_def power_Suc by (simp only: mult.assoc) (intro conjI TrueI; linarith)
qed

lemma near_rnd_ordinary:
  assumes "near k a A" "k \<le> 2 ^ 52" "A = 0 \<or> p2 (- 999) \<le> A"
  shows "near (Suc k) (rnd a) A"
proof -
  have "p2 (- 999) = 2 * p2 (- 1000)" by (simp add: power_int_minus)
  then have "ordinary a"
    using assms(3) near_bounds [OF assms(1,2)] by (auto simp: ordinary_def)
  with assms(1) show ?thesis by (rule near_rnd)
qed

section \<open>The square root\<close>

lemma scaled_root:
  assumes "p2 52 \<le> of_int s" "of_int (s * s) \<le> y" "y < of_int ((s + 1) * (s + 1))"
    and "h = of_int s + 1 / 2" "t = (if y < h * h \<or> (y = h * h \<and> even s) then s else s + 1)"
  shows "(1 - ulp) * (1 - ulp) * y \<le> of_int (t * t)" "of_int (t * t) \<le> (1 + ulp) * (1 + ulp) * y"
proof -
  let ?S = "of_int s :: rat"
  have "p2 52 * ulp \<le> ?S * ulp" using assms(1) ulp_small by (intro mult_right_mono) simp_all
  then have half: "1 / 2 \<le> ?S * ulp" by (simp add: ulp_def)
  have S: "0 \<le> ?S" using assms(1) p2_nonneg [of 52] by linarith
  have "0 \<le> ?S * ?S" by (rule mult_nonneg_nonneg [OF S S])
  then have y: "0 \<le> y" using assms(2) unfolding of_int_mult by (rule order.trans)
  have less: "(1 - ulp) * (1 - ulp) \<le> 1 * 1" "1 * 1 \<le> (1 + ulp) * (1 + ulp)"
    using ulp_small by (intro mult_mono; simp)+
  have wide: "(1 - ulp) * (1 - ulp) * y \<le> y" "y \<le> (1 + ulp) * (1 + ulp) * y"
    using mult_right_mono [OF less(1) y] mult_right_mono [OF less(2) y] by simp_all
  have "(1 - ulp) * (1 - ulp) * y \<le> of_int (t * t) \<and> of_int (t * t) \<le> (1 + ulp) * (1 + ulp) * y"
  proof (cases "t = s")
    case True
    then have "y \<le> h * h" using assms(5) by (auto split: if_splits)
    then have "(1 - ulp) * (1 - ulp) * y \<le> (1 - ulp) * (1 - ulp) * (h * h)"
      using ulp_small by (intro mult_left_mono) simp_all
    also have "\<dots> = ((1 - ulp) * h) * ((1 - ulp) * h)" by simp
    also have "\<dots> \<le> ?S * ?S"
    proof (rule mult_mono')
      have "(1 - ulp) * h \<le> (1 - ulp) * (?S + ?S * ulp)"
        using half ulp_small assms(4) by (intro mult_left_mono) simp_all
      also have "\<dots> = ?S - ?S * (ulp * ulp)" by (simp add: algebra_simps)
      also have "\<dots> \<le> ?S" using S by simp
      finally show "(1 - ulp) * h \<le> ?S" "(1 - ulp) * h \<le> ?S" by simp_all
      show "0 \<le> (1 - ulp) * h" "0 \<le> (1 - ulp) * h" using S ulp_small assms(4) by simp_all
    qed
    finally show ?thesis using True assms(2) wide(2) by simp
  next
    case False
    then have t: "t = s + 1" "h * h \<le> y" using assms(5) by (auto split: if_splits)
    have "h * ulp \<ge> ?S * ulp" using assms(4) ulp_small by (intro mult_right_mono) simp_all
    moreover have "of_int t = h + 1 / 2" "(1 + ulp) * h = h + h * ulp"
      using assms(4) t(1) by (simp_all add: distrib_right mult.commute)
    ultimately have T: "of_int t \<le> (1 + ulp) * h" using half by linarith
    have "of_int (t * t) \<le> ((1 + ulp) * h) * ((1 + ulp) * h)"
      unfolding of_int_mult using T S t(1) by (intro mult_mono') simp_all
    also have "\<dots> = (1 + ulp) * (1 + ulp) * (h * h)" by simp
    also have "\<dots> \<le> (1 + ulp) * (1 + ulp) * y" using t(2) ulp_small by (intro mult_left_mono) simp_all
    finally show ?thesis using t(1) assms(3) wide(1) by simp
  qed
  then show "(1 - ulp) * (1 - ulp) * y \<le> of_int (t * t)" "of_int (t * t) \<le> (1 + ulp) * (1 + ulp) * y"
    by blast+
qed

lemma sqrt_rnd_near:
  assumes "0 < x"
  shows "(1 - ulp) * (1 - ulp) * x \<le> sqrt_rnd x * sqrt_rnd x" "sqrt_rnd x * sqrt_rnd x \<le> (1 + ulp) * (1 + ulp) * x"
    "0 \<le> sqrt_rnd x"
proof -
  define q where "q = expo x div 2 - 52"
  define y where "y = x / 4 powi q"
  define s where "s = isqrt \<lfloor>y\<rfloor>"
  define h where "h = of_int s + (1 / 2 :: rat)"
  define t where "t = (if y < h * h \<or> (y = h * h \<and> even s) then s else s + 1)"
  have four: "(4 :: rat) powi q = p2 q * p2 q" by (simp add: power_int_mult_distrib [symmetric])
  have r: "sqrt_rnd x = of_int t * p2 q"
    using assms by (simp add: sqrt_rnd_def Let_def q_def y_def s_def h_def t_def)
  have y0: "0 < y" using assms by (simp add: y_def four)
  have "p2 (2 * (expo x div 2)) \<le> p2 (expo x)" by (rule p2_mono) simp
  also have "\<dots> \<le> x" using expo_bounds [OF assms] by simp
  finally have "p2 104 * (p2 q * p2 q) \<le> x"
    by (simp only: p2_add [symmetric] q_def) (simp add: algebra_simps)
  then have "p2 104 \<le> y" by (simp add: y_def four pos_le_divide_eq)
  then have y: "2 ^ 104 \<le> \<lfloor>y\<rfloor>" by (simp add: le_floor_iff)
  have b: "0 \<le> s" "s * s \<le> \<lfloor>y\<rfloor>" "\<lfloor>y\<rfloor> < (s + 1) * (s + 1)"
    using isqrt_bounds [of "\<lfloor>y\<rfloor>"] y0 by (simp_all add: s_def)
  have "2 ^ 52 \<le> s"
  proof (rule ccontr)
    assume "\<not> 2 ^ 52 \<le> s"
    then have "s + 1 \<le> 2 ^ 52" by simp
    then have "(s + 1) * (s + 1) \<le> 2 ^ 52 * 2 ^ 52" using b(1) by (intro mult_mono) simp_all
    moreover have "(2 :: int) ^ 52 * 2 ^ 52 = 2 ^ 104" by simp
    ultimately show False using b(3) y by linarith
  qed
  then have s: "p2 52 \<le> of_int s" using of_int_le_iff [of "2 ^ 52" s, where 'a = rat] by simp
  have fl: "of_int (s * s) \<le> y" "y < of_int ((s + 1) * (s + 1))"
    using b(2,3) by (simp_all only: le_floor_iff floor_less_iff)
  note near = scaled_root [OF s fl h_def t_def]
  have x: "x = y * (p2 q * p2 q)" by (simp add: y_def four)
  have rr: "sqrt_rnd x * sqrt_rnd x = of_int (t * t) * (p2 q * p2 q)" by (simp add: r)
  have "0 \<le> p2 q * p2 q" by simp
  from mult_right_mono [OF near(1) this] mult_right_mono [OF near(2) this]
  show "(1 - ulp) * (1 - ulp) * x \<le> sqrt_rnd x * sqrt_rnd x" "sqrt_rnd x * sqrt_rnd x \<le> (1 + ulp) * (1 + ulp) * x"
    unfolding rr by (simp_all only: x mult.assoc)
  show "0 \<le> sqrt_rnd x" using b(1) unfolding r t_def by simp
qed

lemma near_sqrt:
  assumes "near k x X" "0 \<le> x"
  shows "near (k + 2) (sqrt_rnd x * sqrt_rnd x) X"
proof (cases "x = 0")
  case True
  then show ?thesis using near_mono [OF assms(1), of "k + 2"] by (simp add: sqrt_rnd_def)
next
  case False
  then have "0 < x" using assms(2) by simp
  note root = sqrt_rnd_near [OF this]
  have "(1 - ulp) * (1 - ulp) * ((1 - ulp) ^ k * X) \<le> (1 - ulp) * (1 - ulp) * x"
    "(1 + ulp) * (1 + ulp) * x \<le> (1 + ulp) * (1 + ulp) * ((1 + ulp) ^ k * X)"
    using assms(1) ulp_small by (auto simp: near_def intro!: mult_left_mono)
  with root(1,2) assms(1) show ?thesis
    unfolding near_def add_2_eq_Suc' power_Suc by (simp only: mult.assoc) (intro conjI TrueI; linarith)
qed

section \<open>The loop\<close>

text \<open>A sample that differs from the mean does so by far more than the smallest normal number.\<close>

lemma mean_gap:
  assumes "is_rep m" "m = 0 \<or> p2 (- 52) \<le> m"
  shows "of_nat i = m \<or> p2 (- 104) \<le> \<bar>of_nat i - m\<bar>"
proof -
  have grid: "\<exists>k. of_nat i - m = of_int k * p2 (- 104)"
  proof -
    have i: "of_nat i = of_int (int i * 2 ^ 104) * p2 (- 104)" by (simp add: power_int_minus)
    have "\<exists>k. m = of_int k * p2 (- 104)"
    proof (cases "m = 0")
      case False
      then have m: "p2 (- 52) \<le> m" using assms(2) by simp
      then have "0 < m" using p2_pos [of "- 52"] by linarith
      from rep_multiple [OF assms(1) this] obtain k where k: "m = of_int k * p2 (ulp_exp m)" by blast
      have "expo (p2 (- 52)) = - 52" by (rule expo_unique) (simp_all add: p2_less_iff)
      then have "- 104 \<le> ulp_exp m" using expo_mono [OF _ m] by (simp add: ulp_exp_def)
      then have "p2 (ulp_exp m) = p2 (int (nat (ulp_exp m + 104))) * p2 (- 104)"
        by (intro p2_mult [symmetric]) simp
      moreover obtain l where "of_int k * p2 (int (nat (ulp_exp m + 104))) = of_int l"
        using p2_of_nat_mult by blast
      ultimately show ?thesis using k by (metis mult.assoc)
    qed (auto intro: exI [of _ 0])
    then obtain k where "m = of_int k * p2 (- 104)" by blast
    then have "of_nat i - m = of_int (int i * 2 ^ 104 - k) * p2 (- 104)"
      unfolding of_int_diff left_diff_distrib by (simp only: i [symmetric])
    then show ?thesis by blast
  qed
  then obtain k where k: "of_nat i - m = of_int k * p2 (- 104)" by blast
  show ?thesis
  proof (cases "k = 0")
    case False
    then have "1 \<le> \<bar>of_int k :: rat\<bar>" by (simp flip: of_int_abs)
    then have "1 * p2 (- 104) \<le> \<bar>of_int k\<bar> * p2 (- 104)" by (rule mult_right_mono) simp
    then show ?thesis unfolding k abs_mult by simp
  qed (use k in simp)
qed

text \<open>The square of the distance of a sample from the mean, as the loop computes it.\<close>

lemma distance_square:
  assumes "is_rep m" "m = 0 \<or> p2 (- 52) \<le> m" "m \<le> p2 53" "i \<le> 2 ^ 53"
  defines "D \<equiv> (of_nat i - m) * (of_nat i - m)"
  obtains q where "let dd = Finite False (of_nat i) - Finite False m in dd * dd = Finite False q"
    "near 3 q D" "D = 0 \<or> p2 (- 208) \<le> D" "D \<le> p2 106"
proof -
  define d where "d = \<bar>of_nat i - m\<bar>"
  have i: "(of_nat i :: rat) \<le> p2 53" "0 \<le> (of_nat i :: rat)" using of_nat_le_53 [OF assms(4)] by simp_all
  have m: "0 \<le> m" by (rule is_rep_nonneg [OF assms(1)])
  have d: "0 \<le> d" "d \<le> p2 53" "d = 0 \<or> p2 (- 104) \<le> d"
    using i m assms(3) mean_gap [OF assms(1,2), of i] by (auto simp: d_def)
  have D: "D = d * d" by (simp add: D_def d_def)
  have big: "p2 53 \<le> p2 200" "p2 106 \<le> p2 200" "p2 (- 999) \<le> p2 (- 104)" "p2 (- 999) \<le> p2 (- 208)"
    by (rule p2_mono, simp)+
  have e: "0 \<le> rnd d" "rnd d \<le> p2 53"
    using d(1,2) is_repI [of 1 53] by (auto intro!: rnd_le_rep)
  have "near 0 d d" by (rule near_refl [OF d(1)])
  then have "near 1 (rnd d) d" using near_rnd_ordinary [of 0 d d] d(3) big by auto
  from near_square [OF this] have sq: "near 2 (rnd d * rnd d) D" by (simp add: D)
  have "d = 0 \<or> p2 (- 104) * p2 (- 104) \<le> d * d"
    using d(3) mult_mono [of "p2 (- 104)" d "p2 (- 104)" d, OF _ _ d(1) p2_nonneg] by blast
  then have "D = 0 \<or> p2 (- 104) * p2 (- 104) \<le> D" unfolding D by auto
  then have Dlow: "D = 0 \<or> p2 (- 208) \<le> D" by (simp only: p2_add [symmetric]) simp
  then have "near 3 (rnd (rnd d * rnd d)) D"
    using near_rnd_ordinary [OF sq] big by auto
  moreover have "D \<le> p2 53 * p2 53" unfolding D using d by (intro mult_mono) simp_all
  then have "D \<le> p2 106" by (simp only: p2_add [symmetric]) simp
  moreover have "let dd = Finite False (of_nat i) - Finite False m in dd * dd = Finite False (rnd (rnd d * rnd d))"
  proof -
    have "\<exists>s. Finite False (of_nat i) - Finite False m = Finite s (rnd d)"
    proof (cases "of_nat i = m")
      case True
      then have "Finite False (of_nat i) - Finite False m = Finite False (rnd d)"
        by (simp add: minus_f64_def signed_val_def d_def)
      then show ?thesis by blast
    next
      case False
      then have "Finite False (of_nat i) - Finite False m = fl (of_nat i - m < 0) d"
        by (simp add: minus_f64_def signed_val_def d_def Let_def)
      then show ?thesis using fl_finite [of d] d(1,2) big(1) by auto
    qed
    then obtain s where s: "Finite False (of_nat i) - Finite False m = Finite s (rnd d)" by blast
    have "rnd d * rnd d \<le> p2 53 * p2 53" using e by (intro mult_mono) simp_all
    then have "rnd d * rnd d \<le> p2 200" using big(2) by (simp only: p2_add [symmetric]) simp
    then show ?thesis using e(1) s by (simp add: times_f64_def fl_finite)
  qed
  ultimately show thesis using that Dlow by blast
qed

text \<open>What one bucket adds, and the whole loop.\<close>

definition bucket_term :: "rat \<Rightarrow> u64 list \<Rightarrow> u64 \<Rightarrow> rat" where
  "bucket_term m d i = of_nat (unat (d ! unat i)) * ((of_nat (unat i) - m) * (of_nat (unat i) - m))"

lemma bucket_term_nonneg: "0 \<le> bucket_term m d i"
  by (simp add: bucket_term_def del: of_nat_unat)

lemma bucket_added:
  assumes "is_rep m" "m = 0 \<or> p2 (- 52) \<le> m" "m \<le> p2 53" "unat i \<le> 2 ^ 53" "unat c \<le> 2 ^ 53" "0 < c"
    and "d ! unat i = c" "near k a A" "A = 0 \<or> p2 (- 208) \<le> A" "A + bucket_term m d i \<le> p2 160"
    and "4 \<le> k" "k < 2 ^ 52"
  shows "\<exists>b. (let dd = f64_of_u64 i - Finite False m in Finite False a + dd * dd * f64_of_u64 c) = Finite False b
    \<and> near (Suc k) b (A + bucket_term m d i) \<and> (A + bucket_term m d i = 0 \<or> p2 (- 208) \<le> A + bucket_term m d i)"
proof -
  let ?i = "of_nat (unat i) :: rat" and ?c = "of_nat (unat c) :: rat"
  define D where "D = (?i - m) * (?i - m)"
  obtain q where q: "let dd = Finite False ?i - Finite False m in dd * dd = Finite False q"
    "near 3 q D" "D = 0 \<or> p2 (- 208) \<le> D" "D \<le> p2 106"
    using distance_square [OF assms(1-4)] unfolding D_def by blast
  have trm: "bucket_term m d i = D * ?c" by (simp add: bucket_term_def assms(7) D_def del: of_nat_unat)
  have A: "0 \<le> A" using assms(8) by (simp add: near_def)
  have c: "1 \<le> ?c" using assms(6) by (simp add: word_less_nat_alt del: of_nat_unat)
  have D: "0 \<le> D" by (simp add: D_def)
  have t: "D * ?c = 0 \<or> p2 (- 208) \<le> D * ?c"
  proof -
    have "D \<le> D * ?c" using mult_left_mono [OF c D] by (simp only: mult_1_right)
    with q(3) show ?thesis by (metis mult_zero_left order.trans)
  qed
  have big: "p2 (- 999) \<le> p2 (- 208)" "2 * p2 160 \<le> p2 200" by simp_all
  have qc: "near 3 (q * ?c) (D * ?c)" using near_scale [OF q(2), of ?c] c by simp
  have le: "D * ?c \<le> p2 160" "0 \<le> D * ?c" using A assms(10) D c unfolding trm by auto
  have "q * ?c \<le> 2 * (D * ?c)" by (rule near_bounds [OF qc]) simp
  then have "q * ?c \<le> p2 200" using le(1) big(2) by linarith
  then have f1: "Finite False q * Finite False ?c = Finite False (rnd (q * ?c))"
    using near_nonneg [OF q(2)] c by (intro f64_mul_pos) simp_all
  have "near 4 (rnd (q * ?c)) (D * ?c)" using near_rnd_ordinary [OF qc] t big by auto
  then have r: "near k (rnd (q * ?c)) (D * ?c)" by (rule near_mono [OF _ assms(11)])
  have sum: "near k (a + rnd (q * ?c)) (A + D * ?c)" by (rule near_add [OF assms(8) r])
  have f2: "Finite False a + Finite False (rnd (q * ?c)) = Finite False (rnd (a + rnd (q * ?c)))"
    using near_nonneg [OF assms(8)] near_nonneg [OF r] near_bounds(2) [OF sum] assms(10,12) big(2)
    unfolding trm by (intro f64_add_pos) auto
  have low: "A + D * ?c = 0 \<or> p2 (- 208) \<le> A + D * ?c" using assms(9) t A le(2) by auto
  have "near (Suc k) (rnd (a + rnd (q * ?c))) (A + D * ?c)"
    using near_rnd_ordinary [OF sum] low big assms(12) by auto
  moreover have "(let dd = f64_of_u64 i - Finite False m in Finite False a + dd * dd * f64_of_u64 c)
      = Finite False (rnd (a + rnd (q * ?c)))"
    using q(1) f1 f2 unfolding f64_of_u64_small [OF assms(4)] f64_of_u64_small [OF assms(5)] Let_def by simp
  ultimately show ?thesis using low unfolding trm by blast
qed

lemma deviation_loop:
  assumes "is_rep m" "m = 0 \<or> p2 (- 52) \<le> m" "m \<le> p2 53"
    and "\<forall>i \<in> set is. unat i < length d \<and> unat i \<le> 2 ^ 53 \<and> unat (d ! unat i) \<le> 2 ^ 53"
    and "near k a A" "A = 0 \<or> p2 (- 208) \<le> A" "A + (\<Sum>i\<leftarrow>is. bucket_term m d i) \<le> p2 160"
    and "4 \<le> k" "k + length (filter (\<lambda>i. 0 < d ! unat i) is) \<le> 2 ^ 52"
  shows "\<exists>b. stdev_loop (Finite False m) d is (Finite False a) = Some (Finite False b)
    \<and> near (k + length (filter (\<lambda>i. 0 < d ! unat i) is)) b (A + (\<Sum>i\<leftarrow>is. bucket_term m d i))
    \<and> (A + (\<Sum>i\<leftarrow>is. bucket_term m d i) = 0 \<or> p2 (- 208) \<le> A + (\<Sum>i\<leftarrow>is. bucket_term m d i))"
  using assms(4-9)
proof (induction "is" arbitrary: a A k)
  case (Cons i "is")
  let ?c = "d ! unat i"
  have rest: "0 \<le> (\<Sum>i\<leftarrow>is. bucket_term m d i)" by (intro sum_list_nonneg) (auto simp: bucket_term_nonneg)
  have i: "unat i < length d" "unat i \<le> 2 ^ 53" "unat ?c \<le> 2 ^ 53" using Cons.prems(1) by auto
  show ?case
  proof (cases "0 < ?c")
    case True
    have "A + bucket_term m d i \<le> p2 160" using Cons.prems(4) rest by simp
    moreover have "k < 2 ^ 52" using Cons.prems(6) True by simp
    ultimately obtain b where b: "(let dd = f64_of_u64 i - Finite False m in Finite False a + dd * dd * f64_of_u64 ?c) = Finite False b"
      "near (Suc k) b (A + bucket_term m d i)" "A + bucket_term m d i = 0 \<or> p2 (- 208) \<le> A + bucket_term m d i"
      using bucket_added [OF assms(1-3) i(2,3) True refl Cons.prems(2,3) _ Cons.prems(5)] by blast
    show ?thesis
      using Cons.IH [OF _ b(2,3)] Cons.prems True i b(1) by (simp add: add.assoc Let_def)
  next
    case False
    then have "?c = 0" by (simp add: word_gt_0)
    then have "bucket_term m d i = 0" by (simp add: bucket_term_def)
    then show ?thesis using Cons.IH [OF _ Cons.prems(2,3)] Cons.prems i False by simp
  qed
qed simp

section \<open>The standard deviation\<close>

text \<open>The sum of the squared distances of the samples from \<open>m\<close>.\<close>

definition squares :: "rat \<Rightarrow> u64 multiset \<Rightarrow> rat" where
  "squares m M = (\<Sum>x \<in># M. (of_nat (unat x) - m) ^ 2)"

lemma bucket_terms:
  assumes "represents s M" "size M < 2 ^ 64"
  shows "(\<Sum>i\<leftarrow>range_incl (st_min s) (st_max s). bucket_term m (st_data s) i) = squares m M"
proof -
  let ?R = "range_incl (st_min s) (st_max s)" and ?f = "\<lambda>i :: u64. (of_nat (unat i) - m) ^ 2 :: rat"
  have "(\<Sum>i\<leftarrow>?R. bucket_term m (st_data s) i) = (\<Sum>i \<in> set ?R. bucket_term m (st_data s) i)"
    by (rule sum_list_distinct_conv_sum_set [OF distinct_range_incl])
  also have "\<dots> = (\<Sum>i \<in> set ?R. of_nat (count M i) * ?f i)"
    using bucket_count [OF assms] range_below_limit [OF assms(1)]
    by (intro sum.cong) (simp_all add: bucket_term_def power2_eq_square del: of_nat_unat)
  also have "\<dots> = squares m M"
    unfolding squares_def using members_in_range [OF assms(1)] by (intro sum_count_mult) simp_all
  finally show ?thesis .
qed

lemma card_le_size: "card (set_mset M) \<le> size M"
  by (induction M) (simp_all add: card_insert_if)

lemma squares_bound:
  assumes "m \<le> p2 53" "0 \<le> m" "\<forall>x \<in># M. unat x \<le> 2 ^ 53"
  shows "0 \<le> squares m M" "squares m M \<le> of_nat (size M) * p2 106"
proof -
  have sq: "(of_nat (unat x) - m) ^ 2 \<le> p2 106" if "x \<in># M" for x
  proof -
    have "(of_nat (unat x) :: rat) \<le> 2 ^ 53" by (rule of_nat_le_53) (use assms(3) that in blast)
    then have "(of_nat (unat x) :: rat) \<le> p2 53" by simp
    moreover have "0 \<le> (of_nat (unat x) :: rat)" by (rule of_nat_0_le_iff)
    ultimately have "\<bar>of_nat (unat x) - m\<bar> \<le> p2 53" using assms(1,2) by (simp only: abs_le_iff) linarith
    then have "\<bar>of_nat (unat x) - m\<bar> ^ 2 \<le> p2 53 ^ 2" by (rule power_mono) simp
    then show ?thesis by simp
  qed
  show "0 \<le> squares m M" unfolding squares_def by (induction M) simp_all
  show "squares m M \<le> of_nat (size M) * p2 106"
    using sum_mset_mono [of M "\<lambda>x. (of_nat (unat x) - m) ^ 2" "\<lambda>_. p2 106"] sq
    unfolding squares_def by simp
qed

lemma range_small:
  assumes "represents s M" "M \<noteq> {#}" "size M \<le> 2 ^ 51" "\<forall>x \<in># M. unat x \<le> 2 ^ 53"
    and i: "i \<in> set (range_incl (st_min s) (st_max s))"
  shows "unat i < length (st_data s) \<and> unat i \<le> 2 ^ 53 \<and> unat (st_data s ! unat i) \<le> 2 ^ 53"
proof -
  have "stats_safe s" using assms(1) by (simp add: represents_def)
  note data = range_in_data [OF this]
  have "unat (st_max s) \<le> 2 ^ 53" using max_member [OF assms(1,2)] assms(4) by blast
  moreover have "unat i \<le> unat (st_max s)" using i by (simp add: set_range_incl word_le_nat_alt)
  moreover have "unat (st_data s ! unat i) \<le> size M"
    using bucket_count [OF assms(1) _ range_below_limit [OF assms(1) i]] count_le_size [of M i] assms(3) by simp
  ultimately show ?thesis using data i assms(3) by simp
qed

text \<open>The sum that the loop leaves, after four errors in a term and one per distinct value.\<close>

lemma loop_near:
  assumes "represents s M" "M \<noteq> {#}" "size M \<le> 2 ^ 51" "\<forall>x \<in># M. unat x \<le> 2 ^ 53"
    and "is_rep m" "m = 0 \<or> p2 (- 52) \<le> m" "m \<le> p2 53"
  defines "k \<equiv> card (set_mset M)" and "V \<equiv> squares m M"
  obtains b where
    "stdev_loop (Finite False m) (st_data s) (range_incl (st_min s) (st_max s)) (Finite False 0) = Some (Finite False b)"
    "near (4 + k) b V" "V = 0 \<or> p2 (- 208) \<le> V" "b \<le> 2 * p2 160" "k \<le> 2 ^ 51"
proof -
  have M64: "size M < 2 ^ 64" using assms(3) by simp
  have k: "k \<le> 2 ^ 51" using card_le_size [of M] assms(3) by (simp add: k_def)
  have "(of_nat (size M) :: rat) \<le> p2 51" using of_nat_mono [OF assms(3), where 'a = rat] by simp
  then have "of_nat (size M) * p2 106 \<le> p2 51 * p2 106" by (rule mult_right_mono) simp
  also have "\<dots> \<le> p2 160" by (simp only: p2_add [symmetric]) (rule p2_mono, simp)
  finally have V: "V \<le> p2 160"
    using squares_bound(2) [OF assms(7) is_rep_nonneg [OF assms(5)] assms(4)]
    unfolding V_def by (rule order.trans [rotated])
  obtain b where b: "stdev_loop (Finite False m) (st_data s) (range_incl (st_min s) (st_max s)) (Finite False 0)
      = Some (Finite False b)" "near (4 + k) b V" "V = 0 \<or> p2 (- 208) \<le> V"
    using deviation_loop [OF assms(5-7), of "range_incl (st_min s) (st_max s)" "st_data s" 4 0 0]
      range_small [OF assms(1-4)] V k
    unfolding bucket_terms [OF assms(1) M64] filled_buckets [OF assms(1) M64] k_def [symmetric] V_def [symmetric]
    by (auto simp: near_def)
  have "4 + k \<le> 2 ^ 52" using k by simp
  with near_bounds(2) [OF b(2)] V have "b \<le> 2 * p2 160" by linarith
  with b k show thesis by (intro that)
qed

text \<open>
  \<open>stdev\<close> is the sample standard deviation about the mean it is given, up to as many relative errors
  as a term sees operations: four for its own, one addition per distinct value, one for the division
  and the square root, which halves the errors before it and adds its own.
\<close>

lemma stdev_near:
  assumes "represents s M" "2 \<le> size M" "size M \<le> 2 ^ 51" "\<forall>x \<in># M. unat x \<le> 2 ^ 53"
    and "is_rep m" "m = 0 \<or> p2 (- 52) \<le> m" "m \<le> p2 53"
  shows "\<exists>r. stats_stdev (Finite False m) s = Some (Finite False r) \<and> 0 \<le> r
    \<and> near (card (set_mset M) + 7) (r * r) (squares m M / of_nat (size M - 1))"
proof -
  define n where "n = size M - 1"
  let ?N = "of_nat n :: rat" and ?k = "card (set_mset M)" and ?V = "squares m M"
  have "M \<noteq> {#}" using assms(2) by auto
  from loop_near [OF assms(1) this assms(3-7)] obtain b where
    b: "stdev_loop (Finite False m) (st_data s) (range_incl (st_min s) (st_max s)) (Finite False 0) = Some (Finite False b)"
      "near (4 + ?k) b ?V" "?V = 0 \<or> p2 (- 208) \<le> ?V" "b \<le> 2 * p2 160" "?k \<le> 2 ^ 51" .
  have N: "1 \<le> ?N" "?N \<le> p2 51"
    using assms(2,3) of_nat_mono [of n "2 ^ 51", where 'a = rat] of_nat_mono [of 1 n, where 'a = rat]
    by (simp_all add: n_def del: of_nat_diff)
  let ?q = "rnd (b / ?N)"
  have q: "near (4 + ?k) (b / ?N) (?V / ?N)" using near_scale [OF b(2), of "1 / ?N"] N(1) by simp
  have low: "?V / ?N = 0 \<or> p2 (- 999) \<le> ?V / ?N"
  proof -
    have "p2 (- 999) * ?N \<le> p2 (- 999) * p2 51" using N(2) by (intro mult_left_mono) simp_all
    also have "\<dots> \<le> p2 (- 208)" by (simp only: p2_add [symmetric]) (rule p2_mono, simp)
    finally have "p2 (- 208) \<le> ?V \<Longrightarrow> p2 (- 999) * ?N \<le> ?V" by (rule order.trans)
    moreover have "0 < ?N" using N(1) by linarith
    ultimately show ?thesis using b(3) pos_le_divide_eq [of ?N "p2 (- 999)" ?V] by auto
  qed
  have root: "near (4 + ?k + 1 + 2) (sqrt_rnd ?q * sqrt_rnd ?q) (?V / ?N)"
    using near_sqrt [OF near_rnd_ordinary [OF q _ low]] b(5) near_nonneg [OF q] by simp
  have "b / ?N \<le> b / 1" using N(1) near_nonneg [OF b(2)] by (intro divide_left_mono) simp_all
  then have "b / ?N \<le> p2 200" using b(4) by simp
  then have quot: "Finite False b / Finite False ?N = Finite False ?q"
    using near_nonneg [OF b(2)] N(1) by (intro f64_div_pos) simp_all
  have cnt: "unat (st_count s) = size M" using unat_st_count [OF assms(1)] assms(3) by simp
  then have two: "\<not> st_count s < 2" using assms(2) by (simp add: word_less_nat_alt)
  have "unat (st_count s - 1) = n" using cnt assms(2) by (simp add: n_def unat_sub word_le_nat_alt)
  then have "f64_of_u64 (st_count s - 1) = Finite False ?N"
    using f64_of_u64_small [of "st_count s - 1"] assms(3) by (simp add: n_def)
  then have "stats_stdev (Finite False m) s = Some (Finite False (sqrt_rnd ?q))"
    using b(1) quot two by (simp add: stats_stdev_def f64_zero_ops sqrt_rnd_def)
  moreover have "0 \<le> sqrt_rnd ?q"
    using sqrt_rnd_near(3) [of ?q] rnd_nonneg [OF near_nonneg [OF q]] by (cases "?q = 0") (auto simp: sqrt_rnd_def)
  ultimately show ?thesis using root unfolding n_def by (simp add: add.commute)
qed

text \<open>The mean that the code computes meets what \<open>stdev\<close> needs of it.\<close>

lemma mean_value:
  fixes S n :: nat
  assumes "0 < n" "n \<le> 2 ^ 51" "S \<le> 2 ^ 53"
  defines "m \<equiv> rnd (of_nat S / of_nat n)"
  shows "is_rep m" "m = 0 \<or> p2 (- 52) \<le> m" "m \<le> p2 53"
proof -
  have n: "1 \<le> (of_nat n :: rat)" "(of_nat n :: rat) \<le> p2 51"
    using of_nat_mono [of 1 n, where 'a = rat] of_nat_mono [OF assms(2), where 'a = rat] assms(1) by simp_all
  have "is_rep (rnd (of_nat S / of_nat n))" by (rule is_rep_rnd) simp
  then show "is_rep m" by (simp only: m_def)
  have "(of_nat S :: rat) / of_nat n \<le> of_nat S / 1" using n(1) by (intro divide_left_mono) simp_all
  also have "\<dots> \<le> p2 53" using of_nat_le_53 [OF assms(3)] by simp
  finally have "rnd (of_nat S / of_nat n) \<le> p2 53" using is_repI [of 1 53] by (intro rnd_le_rep) simp_all
  then show "m \<le> p2 53" by (simp only: m_def)
  show "m = 0 \<or> p2 (- 52) \<le> m"
  proof (cases "S = 0")
    case False
    then have "1 \<le> (of_nat S :: rat)" using of_nat_mono [of 1 S, where 'a = rat] by simp
    moreover have "p2 (- 52) * of_nat n \<le> p2 (- 52) * p2 51" using n(2) by (intro mult_left_mono) simp_all
    then have "p2 (- 52) * of_nat n \<le> 1" by simp
    ultimately have "p2 (- 52) \<le> of_nat S / of_nat n" using n(1) by (simp only: pos_le_divide_eq)
    then have "p2 (- 52) \<le> rnd (of_nat S / of_nat n)" using is_repI [of 1 "- 52"] by (intro rnd_ge_rep) simp_all
    then show ?thesis unfolding m_def by (rule disjI2)
  qed (simp add: m_def)
qed

end
