(* ===== verification/Stats_Correct.thy ===== *)
theory Stats_Correct
  imports Stats
begin

text \<open>
  The coordinated-omission correction \<open>Stats::correct\<close> in closed form. The source updates the
  array while it walks over it; the lemmas show that every bucket it reads still holds its
  original count, so the result is one sum per bucket.
\<close>

text \<open>Bucket \<open>k\<close> is one of \<open>m, m - e, m - 2 * e, \<dots>\<close> above \<open>e\<close>.\<close>

definition hit :: "int \<Rightarrow> int \<Rightarrow> nat \<Rightarrow> bool" where
  "hit e m k \<longleftrightarrow> e < int k \<and> int k \<le> m \<and> e dvd (m - int k)"

definition n_hits :: "int \<Rightarrow> int \<Rightarrow> nat" where
  "n_hits e m = nat ((m - 1) div e)"

lemma hit_step:
  assumes "0 < e" "e < m"
  shows "hit e m k \<longleftrightarrow> int k = m \<or> hit e (m - e) k"
proof -
  have dvd: "e dvd (m - int k) \<longleftrightarrow> e dvd (m - e - int k)"
  proof -
    have "m - e - int k = (m - int k) - e" by simp
    then show ?thesis by (metis dvd_diff_commute dvd_diff_right_iff dvd_refl)
  qed
  show ?thesis
  proof (cases "int k = m")
    case False
    have "int k \<le> m \<and> e dvd (m - int k) \<longrightarrow> int k \<le> m - e"
    proof
      assume a: "int k \<le> m \<and> e dvd (m - int k)"
      with False have "e \<le> m - int k" by (intro zdvd_imp_le) simp_all
      then show "int k \<le> m - e" by simp
    qed
    with False dvd assms(1) show ?thesis by (auto simp: hit_def)
  qed (use assms in \<open>simp add: hit_def\<close>)
qed

lemma n_hits_step:
  assumes "0 < e" "e < m"
  shows "n_hits e m = Suc (n_hits e (m - e))"
proof -
  have "(m - 1) div e = (m - e - 1) div e + 1"
    using assms(1) div_add_self2 [of e "m - e - 1"] by simp
  moreover have "0 \<le> (m - e - 1) div e" using assms by (simp add: pos_imp_zdiv_nonneg_iff)
  ultimately show ?thesis by (simp add: n_hits_def nat_add_distrib)
qed

lemma n_hits_zero: "0 < e \<Longrightarrow> m \<le> e \<Longrightarrow> n_hits e m = 0"
  using zdiv_mono1 [of "m - 1" "e - 1" e] by (simp add: n_hits_def div_pos_pos_trivial)

text \<open>What the walk from \<open>m\<close> down leaves: count \<open>c\<close> added to each hit.\<close>

definition spread :: "int \<Rightarrow> u64 \<Rightarrow> int \<Rightarrow> stats \<Rightarrow> stats" where
  "spread e c m s = s\<lparr>
     st_data := map (\<lambda>k. st_data s ! k + (if hit e m k then c else 0)) [0..<length (st_data s)],
     st_count := st_count s + of_nat (n_hits e m) * c\<rparr>"

lemma correct_inner_spread:
  assumes "0 < e" "m < int (length (st_data s))" "length (st_data s) < 2 ^ 60"
  shows "correct_inner e c m s = Some (spread e c m s)"
  using assms
proof (induction e c m s rule: correct_inner.induct)
  case (1 e c m s)
  show ?case
  proof (cases "e < m")
    case True
    then have m: "unat (as_u64 m) = nat m" "nat m < length (st_data s)"
      using "1.prems" unat_as_u64 [of m] by auto
    let ?s' = "s\<lparr>st_data := (st_data s)[nat m := st_data s ! nat m + c], st_count := st_count s + c\<rparr>"
    have "correct_inner e c (m - e) ?s' = Some (spread e c (m - e) ?s')"
      using "1.IH" [of "st_data s ! nat m"] True "1.prems" m by simp
    moreover have "spread e c (m - e) ?s' = spread e c m s"
    proof -
      have "\<not> hit e (m - e) (nat m)" using "1.prems" True by (simp add: hit_def)
      moreover have "int k = m \<longleftrightarrow> k = nat m" for k using True "1.prems"(1) by auto
      ultimately have at: "st_data (spread e c (m - e) ?s') ! k = st_data (spread e c m s) ! k"
        if "k < length (st_data s)" for k
        using that m(2) hit_step [OF "1.prems"(1) True, of k] "1.prems"(1) True
        by (cases "k = nat m") (simp_all add: spread_def)
      have "st_data (spread e c (m - e) ?s') = st_data (spread e c m s)"
        using at by (intro nth_equalityI) (simp_all add: spread_def)
      moreover have "st_count (spread e c (m - e) ?s') = st_count (spread e c m s)"
        using n_hits_step [OF "1.prems"(1) True] by (simp add: spread_def algebra_simps)
      ultimately show ?thesis by (simp add: spread_def)
    qed
    ultimately show ?thesis
      using True "1.prems" m by (subst correct_inner.simps) simp
  next
    case False
    then have "\<And>k. \<not> hit e m k" by (simp add: hit_def)
    moreover have "correct_inner e c m s = Some s" using False by (subst correct_inner.simps) simp
    ultimately show ?thesis
      using False "1.prems" by (simp add: spread_def n_hits_zero map_nth)
  qed
qed

text \<open>The closed form of the outer loop over \<open>n = a, \<dots>, b\<close>.\<close>

definition corrected_bucket :: "int \<Rightarrow> nat \<Rightarrow> nat \<Rightarrow> u64 list \<Rightarrow> nat \<Rightarrow> u64" where
  "corrected_bucket e a b d k =
     d ! k + (\<Sum>i = a..b. if hit e (int i - e) k then d ! i else 0)"

definition corrected :: "int \<Rightarrow> nat \<Rightarrow> nat \<Rightarrow> stats \<Rightarrow> stats" where
  "corrected e a b s = s\<lparr>
     st_data := map (corrected_bucket e a b (st_data s)) [0..<length (st_data s)],
     st_count := st_count s + (\<Sum>i = a..b. of_nat (n_hits e (int i - e)) * st_data s ! i)\<rparr>"

lemma hit_below: "0 < e \<Longrightarrow> hit e (int i - e) k \<Longrightarrow> k < i"
  by (auto simp: hit_def)

lemma corrected_step:
  assumes "0 < e" "a \<le> b" "b < length (st_data s)"
  shows "corrected e (Suc a) b (spread e (st_data s ! a) (int a - e) s) = corrected e a b s"
proof -
  let ?d = "st_data s" and ?c = "st_data s ! a"
  let ?d' = "st_data (spread e ?c (int a - e) s)"
  have len: "length ?d' = length ?d" by (simp add: spread_def)
  have same: "?d' ! i = ?d ! i" if "i \<in> {Suc a..b}" for i
    using that assms hit_below [of e a i] by (auto simp: spread_def)
  have "corrected_bucket e (Suc a) b ?d' k = corrected_bucket e a b ?d k" if "k < length ?d" for k
  proof -
    have "(\<Sum>i = Suc a..b. if hit e (int i - e) k then ?d' ! i else 0)
        = (\<Sum>i = Suc a..b. if hit e (int i - e) k then ?d ! i else 0)"
      using same by (intro sum.cong) auto
    then show ?thesis
      using that assms by (simp add: corrected_bucket_def sum.atLeast_Suc_atMost [OF assms(2)])
         (simp add: spread_def algebra_simps)
  qed
  moreover have "(\<Sum>i = Suc a..b. of_nat (n_hits e (int i - e)) * ?d' ! i)
      = (\<Sum>i = Suc a..b. of_nat (n_hits e (int i - e)) * ?d ! i)"
    using same by (intro sum.cong) auto
  ultimately show ?thesis
    using len by (auto simp: corrected_def sum.atLeast_Suc_atMost [OF assms(2)] spread_def
        algebra_simps intro!: stats.equality)
qed

lemma spread_zero: "spread e 0 m s = s"
  by (auto simp: spread_def map_nth intro!: stats.equality)

lemma correct_outer_corrected:
  assumes "0 < e" "b < length (st_data s)" "length (st_data s) < 2 ^ 60"
  shows "correct_outer e a b s = Some (corrected e a b s)"
  using assms
proof (induction e a b s rule: correct_outer.induct)
  case (1 e a b s)
  show ?case
  proof (cases "a \<le> b")
    case True
    let ?c = "st_data s ! a" and ?s' = "spread e (st_data s ! a) (int a - e) s"
    have a: "unat (word_of_nat a :: u64) = a" using True "1.prems" by (simp add: unat_of_nat)
    have inner: "(if 0 < ?c then correct_inner e ?c (int a - e) s else Some s) = Some ?s'"
      using True "1.prems"
      by (cases "?c = 0") (simp_all add: correct_inner_spread spread_zero word_neq_0_conv)
    have "correct_outer e (Suc a) b ?s' = Some (corrected e (Suc a) b ?s')"
      using "1.IH" [OF True, of ?c ?s'] inner a True "1.prems" by (simp add: spread_def)
    then have "correct_outer e (Suc a) b ?s' = Some (corrected e a b s)"
      using corrected_step [OF "1.prems"(1) True "1.prems"(2)] by simp
    then show ?thesis
      using inner a True "1.prems" by (subst correct_outer.simps) simp
  next
    case False
    then have "map (corrected_bucket e a b (st_data s)) [0..<length (st_data s)] = st_data s"
      by (intro nth_equalityI) (simp_all add: corrected_bucket_def)
    with False show ?thesis by (subst correct_outer.simps) (simp add: corrected_def)
  qed
qed

lemma stats_correct_closed:
  assumes "stats_safe s" "0 < e" "e < 2 ^ 63"
  shows "stats_correct e s = Some (corrected e (nat (2 * e)) (unat (st_max s)) s)"
proof -
  have mx: "as_i64 (st_max s) = int (unat (st_max s))"
    using stats_safeD(3) [OF assms(1)] by (intro as_i64_small) simp
  have "as_u64 (max (int (unat (st_max s))) 0) = st_max s"
    by (simp add: as_u64_def)
  moreover have "unat (as_u64 (wrap_i64 (e * 2))) = nat (2 * e)"
    using assms(2,3) unat_as_u64 [of "e * 2"] by (simp add: as_u64_wrap_i64 mult.commute)
  ultimately show ?thesis
    using assms stats_safeD [OF assms(1)]
    by (simp add: stats_correct_def mx correct_outer_corrected Let_def del: of_nat_unat)
qed

lemma stats_correct_safe:
  "stats_safe s \<Longrightarrow> e < 2 ^ 63 \<Longrightarrow> \<exists>s'. stats_correct e s = Some s' \<and> stats_safe s'"
proof (cases "0 < e")
  case True
  assume s: "stats_safe s" "e < 2 ^ 63"
  then have "stats_safe (corrected e (nat (2 * e)) (unat (st_max s)) s)"
    by (simp add: corrected_def stats_safe_def)
  with s True show ?thesis by (simp add: stats_correct_closed)
qed (simp add: stats_correct_def)

end
