(* ===== verification/Stats_Omission.thy ===== *)
theory Stats_Omission
  imports Stats_Correct Stats_Spec
begin

text \<open>
  What \<open>Stats::correct\<close> promises, over the multiset of samples: every sample \<open>x\<close> gains the
  series \<open>x - e, x - 2 * e, \<dots>\<close> of the requests a client on schedule would have sent while it
  waited, as long as the term is above \<open>e\<close>. The closed form of \<open>Stats_Correct\<close> refines it.
\<close>

function synth :: "int \<Rightarrow> int \<Rightarrow> u64 multiset" where
  "synth e m = (if e < m \<and> 0 < e then add_mset (as_u64 m) (synth e (m - e)) else {#})"
  by pat_completeness auto
termination
  by (relation "measure (\<lambda>(e, m). nat m)") auto

declare synth.simps [simp del]

definition omitted :: "int \<Rightarrow> u64 multiset \<Rightarrow> u64 multiset" where
  "omitted e M = (\<Sum>x \<in># M. synth e (int (unat x) - e))"

lemma count_synth:
  assumes "0 < e" "m < 2 ^ 63"
  shows "count (synth e m) i = (if hit e m (unat i) then 1 else 0)"
  using assms
proof (induction e m rule: synth.induct)
  case (1 e m)
  show ?case
  proof (cases "e < m")
    case True
    have "unat (as_u64 m) = nat m" using True "1.prems" by (intro unat_as_u64) auto
    then have "int (unat i) = m \<longleftrightarrow> i = as_u64 m"
      using True "1.prems"(1) by (auto simp: word_unat_eq_iff simp del: of_nat_unat)
    moreover have "\<not> hit e (m - e) (unat i)" if "int (unat i) = m"
      using that "1.prems"(1) by (simp add: hit_def)
    ultimately show ?thesis
      using True 1 hit_step [OF "1.prems"(1) True, of "unat i"] by (subst synth.simps) auto
  next
    case False
    then show ?thesis by (subst synth.simps) (simp add: hit_def)
  qed
qed

lemma size_synth: "0 < e \<Longrightarrow> size (synth e m) = n_hits e m"
proof (induction e m rule: synth.induct)
  case (1 e m)
  show ?case
  proof (cases "e < m")
    case True
    then have "size (synth e m) = Suc (size (synth e (m - e)))"
      using "1.prems" by (subst synth.simps) simp
    with True 1 n_hits_step [OF "1.prems" True] show ?thesis by simp
  next
    case False
    then show ?thesis using "1.prems" by (subst synth.simps) (simp add: n_hits_zero)
  qed
qed

lemma sum_over_range:
  fixes f :: "nat \<Rightarrow> nat" and M :: "u64 multiset"
  assumes "\<forall>x \<in># M. unat x \<le> b" "b < 2 ^ 64" "\<And>i. i < a \<Longrightarrow> f i = 0"
  shows "(\<Sum>i = a..b. f i * count M (word_of_nat i)) = (\<Sum>x \<in># M. f (unat x))"
  using assms(1)
proof (induction M)
  case (add y M)
  have "y = word_of_nat i \<longleftrightarrow> i = unat y" if "i \<in> {a..b}" for i
  proof -
    have "unat (word_of_nat i :: u64) = i" using that assms(2) by (simp add: unat_of_nat)
    then show ?thesis by auto
  qed
  then have "(\<Sum>i = a..b. f i * count (add_mset y M) (word_of_nat i))
      = (\<Sum>i = a..b. f i * count M (word_of_nat i) + (if i = unat y then f i else 0))"
    by (intro sum.cong) auto
  also have "\<dots> = (\<Sum>i = a..b. f i * count M (word_of_nat i)) + f (unat y)"
    using add.prems assms(3) [of "unat y"] by (simp add: sum.distrib)
  finally show ?case using add by simp
qed simp

lemma count_sum_mset:
  fixes f :: "'a \<Rightarrow> 'b multiset"
  shows "count (\<Sum>x \<in># M. f x) i = (\<Sum>x \<in># M. count (f x) i)"
  by (induction M) simp_all

lemma size_sum_mset:
  fixes f :: "'a \<Rightarrow> 'b multiset"
  shows "size (\<Sum>x \<in># M. f x) = (\<Sum>x \<in># M. size (f x))"
  by (induction M) simp_all

text \<open>The sums of the closed form of \<open>correct\<close>, over the buckets, as sums over the samples.\<close>

lemma bucket_of_samples:
  assumes "represents s M" "i \<le> unat (st_max s)"
  shows "st_data s ! i = of_nat (count M (word_of_nat i))"
proof -
  have safe: "stats_safe s" using assms(1) by (simp add: represents_def)
  note b = stats_safeD(2,3) [OF safe]
  have "i < 2 ^ 64" using assms(2) b(2) by (rule order.strict_trans1 [OF _ order.strict_trans]) simp
  then have u: "unat (word_of_nat i :: u64) = i" by (simp add: unat_of_nat)
  have "word_of_nat i < st_limit s"
    unfolding word_less_nat_alt u using assms(2) b(1) unfolding stats_safeD(1) [OF safe] by linarith
  then have "st_data s ! unat (word_of_nat i :: u64) = of_nat (count M (word_of_nat i))"
    using assms(1) by (simp add: represents_def)
  then show ?thesis unfolding u .
qed

lemma bucket_sum:
  assumes "represents s M" "\<And>i. i < a \<Longrightarrow> f i = 0"
  shows "(\<Sum>i = a..unat (st_max s). of_nat (f i) * st_data s ! i) = of_nat (\<Sum>x \<in># M. f (unat x))"
proof -
  have M: "\<forall>x \<in># M. unat x \<le> unat (st_max s)"
    using members_in_range [OF assms(1)] by (auto simp: set_range_incl word_le_nat_alt)
  have safe: "stats_safe s" using assms(1) by (simp add: represents_def)
  have "unat (st_max s) < 2 ^ 60" by (rule stats_safeD(3) [OF safe])
  then have "(\<Sum>i = a..unat (st_max s). f i * count M (word_of_nat i)) = (\<Sum>x \<in># M. f (unat x))"
    using M assms(2) by (intro sum_over_range) auto
  moreover have "(\<Sum>i = a..unat (st_max s). of_nat (f i) * st_data s ! i)
      = of_nat (\<Sum>i = a..unat (st_max s). f i * count M (word_of_nat i))"
    unfolding of_nat_sum using bucket_of_samples [OF assms(1)] by (intro sum.cong) auto
  ultimately show ?thesis by simp
qed

lemma count_omitted:
  assumes "represents s M" "0 < e"
  shows "count (omitted e M) k = (\<Sum>x \<in># M. if hit e (int (unat x) - e) (unat k) then 1 else 0)"
  unfolding omitted_def count_sum_mset
proof (intro arg_cong [where f = sum_mset] image_mset_cong)
  fix x assume "x \<in># M"
  then have "unat x \<le> unat (st_max s)"
    using members_in_range [OF assms(1)] by (auto simp: set_range_incl word_le_nat_alt)
  then have "unat x < 2 ^ 60" using assms(1) stats_safeD(3) by (force simp: represents_def)
  then have "int (unat x) - e < 2 ^ 63" using assms(2) by (simp del: of_nat_unat)
  then show "count (synth e (int (unat x) - e)) k = (if hit e (int (unat x) - e) (unat k) then 1 else 0)"
    using assms(2) by (simp only: count_synth)
qed

lemma correct_refines:
  assumes "represents s M" "0 < e" "e < 2 ^ 63"
  defines "N \<equiv> M + omitted e M"
  shows "\<exists>s'. stats_correct e s = Some s' \<and>
    (\<forall>i < st_limit s. st_data s' ! unat i = of_nat (count N i)) \<and>
    st_count s' = of_nat (size N) \<and> st_limit s' = st_limit s \<and>
    st_min s' = min_of M \<and> st_max s' = max_of M"
proof -
  have safe: "stats_safe s" using assms(1) by (simp add: represents_def)
  let ?a = "nat (2 * e)" and ?b = "unat (st_max s)" and ?d = "st_data s"
  let ?s' = "corrected e ?a ?b s"
  have low: "\<not> hit e (int i - e) k" "n_hits e (int i - e) = 0" if "i < ?a" for i k
    using that assms(2) by (auto simp: hit_def n_hits_zero)
  have omitted_size: "size (omitted e M) = (\<Sum>x \<in># M. n_hits e (int (unat x) - e))"
    unfolding omitted_def size_sum_mset size_synth [OF assms(2)] ..
  have "st_data ?s' ! unat k = of_nat (count N k)" if "k < st_limit s" for k
  proof -
    have k: "unat k < length ?d" using that stats_safeD(1) [OF safe] by (simp add: word_less_nat_alt)
    have "(\<Sum>i = ?a..?b. if hit e (int i - e) (unat k) then ?d ! i else 0)
        = (\<Sum>i = ?a..?b. of_nat (if hit e (int i - e) (unat k) then 1 else 0) * ?d ! i)"
      by (intro sum.cong) auto
    also have "\<dots> = of_nat (count (omitted e M) k)"
      unfolding count_omitted [OF assms(1,2)] using low by (intro bucket_sum [OF assms(1)]) simp
    finally show ?thesis
      using k that assms(1) by (simp add: corrected_def corrected_bucket_def N_def represents_def)
  qed
  moreover have "st_count ?s' = of_nat (size N)"
    using bucket_sum [OF assms(1), of ?a "\<lambda>i. n_hits e (int i - e)"] low assms(1)
    unfolding omitted_size [symmetric] by (simp add: corrected_def N_def represents_def)
  ultimately show ?thesis
    using stats_correct_closed [OF safe assms(2,3)] assms(1)
    by (intro exI [of _ ?s']) (simp add: corrected_def represents_def)
qed

end
