(* ===== verification/Stats_Props.thy ===== *)
theory Stats_Props
  imports Stats_Deviation Stats_Omission
begin

text \<open>
  The properties of the histogram, over a run of the program: allocate, record a list of
  samples, correct, query. They combine the lemmas of the \<open>Stats\<close> theories.
\<close>

section \<open>Recording\<close>

lemma record_all_accepted:
  assumes "stats_alloc mx = Some s" "record_all ns s = Some s'"
  shows "represents s' (mset (filter (\<lambda>n. n \<le> mx) ns))"
  using record_all_represents [OF assms(1), of ns] assms(2) by auto

text \<open>A histogram of eleven buckets and a run of four samples, one of them too large.\<close>

definition hist_empty :: stats where
  "hist_empty = \<lparr>st_count = 0, st_limit = 11, st_min = u64_max, st_max = 0, st_data = replicate 11 0\<rparr>"

definition hist_run :: stats where
  "hist_run = \<lparr>st_count = 3, st_limit = 11, st_min = 3, st_max = 7,
     st_data = [0, 0, 0, 2, 0, 0, 0, 1, 0, 0, 0]\<rparr>"

lemma run_example:
  "stats_alloc 10 = Some hist_empty" "record_all [3, 7, 3, 99] hist_empty = Some hist_run"
  by code_simp+

lemma min_of_insert: "min_of M = Min (insert u64_max (set_mset M))"
  by (simp add: min_of_def Min_insert min_absorb2)

lemma max_of_insert: "max_of M = Max (insert 0 (set_mset M))"
  by (simp add: max_of_def Max_insert max_absorb2)

text \<open>C29: no operation of the histogram panics. Whatever samples are recorded into a histogram that
  \<open>alloc\<close> returned, the correction for any interval an \<open>i64\<close> holds succeeds, and afterwards so does
  every query: no index leaves the array.\<close>

theorem stats_never_panics:
  assumes "stats_alloc mx = Some s" "e < 2 ^ 63"
  shows "\<exists>s1 s2. record_all ns s = Some s1 \<and> stats_correct e s1 = Some s2
    \<and> stats_mean s2 \<noteq> None \<and> stats_stdev m s2 \<noteq> None \<and> stats_within_stdev m d k s2 \<noteq> None
    \<and> stats_percentile p s2 \<noteq> None \<and> stats_popcount s2 \<noteq> None"
proof -
  obtain s1 where s1: "record_all ns s = Some s1" "stats_safe s1"
    using record_all_Some [OF stats_safe_alloc [OF assms(1)]] by blast
  obtain s2 where "stats_correct e s1 = Some s2" "stats_safe s2"
    using stats_correct_safe [OF s1(2) assms(2)] by blast
  with s1(1) show ?thesis using queries_Some by (intro exI conjI)
qed

theorem stats_never_panics_witness:
  "\<exists>s1 s2. record_all [3, 99] hist_empty = Some s1 \<and> stats_correct 2 s1 = Some s2
    \<and> stats_mean s2 \<noteq> None \<and> stats_stdev (lit 3) s2 \<noteq> None
    \<and> stats_within_stdev (lit 3) (lit 1) (lit 1) s2 \<noteq> None
    \<and> stats_percentile (lit 50) s2 \<noteq> None \<and> stats_popcount s2 \<noteq> None"
  by (rule stats_never_panics [OF run_example(1)]) simp

text \<open>C2: recording refines insertion into a multiset. After any list of samples, every bucket holds
  how often its value was recorded, \<open>count\<close> is the number of accepted samples, \<open>min\<close> and \<open>max\<close> are the
  least and the greatest of them (\<open>u64::MAX\<close> and 0 for none), and a sample above the allocated
  maximum changes nothing.\<close>

theorem stats_record_refines:
  assumes "stats_alloc mx = Some s"
  shows "\<exists>s'. record_all ns s = Some s' \<and>
    (\<forall>i \<le> mx. st_data s' ! unat i = of_nat (count (mset ns) i)) \<and>
    st_count s' = of_nat (length (filter (\<lambda>n. n \<le> mx) ns)) \<and>
    st_min s' = Min (insert u64_max {n \<in> set ns. n \<le> mx}) \<and>
    st_max s' = Max (insert 0 {n \<in> set ns. n \<le> mx})"
proof -
  let ?M = "mset (filter (\<lambda>n. n \<le> mx) ns)"
  obtain s' where s': "record_all ns s = Some s'" "represents s' ?M" "st_limit s' = st_limit s"
    using record_all_represents [OF assms] by blast
  have lim: "i < st_limit s' \<longleftrightarrow> i \<le> mx" for i
    using represents_alloc [OF assms] s'(3) by (auto simp: word_less_nat_alt word_le_nat_alt)
  have "size ?M = length (filter (\<lambda>n. n \<le> mx) ns)" by (rule size_mset)
  moreover have "set_mset ?M = {n \<in> set ns. n \<le> mx}" by auto
  ultimately show ?thesis
    using s' lim by (intro exI [of _ s']) (simp add: represents_def min_of_insert max_of_insert)
qed

theorem stats_record_refines_witness:
  "st_count hist_run = 3 \<and> st_max hist_run = Max {0, 3, 7}"
proof -
  have "{n \<in> set [3, 7, 3, 99 :: u64]. n \<le> 10} = {3, 7}" by auto
  then show ?thesis
    using stats_record_refines [OF run_example(1), of "[3, 7, 3, 99]"]
    unfolding run_example(2) by auto
qed

section \<open>Percentiles\<close>

text \<open>C11: percentiles. For the percentiles the report prints, the value returned is the sample at index
  \<open>p * n / 100\<close> (integer division) of the \<open>n\<close> accepted samples in ascending order: the rank the source
  computes in binary64, with its four roundings, is exactly \<open>p * n / 100 + 1\<close> below \<open>2^44\<close> samples.\<close>

theorem stats_percentile_of_samples:
  assumes "stats_alloc mx = Some s" "record_all ns s = Some s'" "p \<in> {50, 75, 90, 99}"
    and "xs = sort (filter (\<lambda>n. n \<le> mx) ns)" "xs \<noteq> []" "length ns < 2 ^ 44"
  shows "stats_percentile (lit (of_nat p)) s' = Some (xs ! (p * length xs div 100))"
proof -
  let ?M = "mset (filter (\<lambda>n. n \<le> mx) ns)"
  have M: "represents s' ?M" by (rule record_all_accepted [OF assms(1,2)])
  have size: "size ?M = length xs" unfolding assms(4) size_mset by simp
  also have "\<dots> \<le> length ns" using assms(4) by simp
  finally have small: "size ?M < 2 ^ 44" using assms(6) by linarith
  then have small64: "size ?M < 2 ^ 64" by simp
  have cnt: "unat (st_count s') = length xs" using unat_st_count [OF M small64] size by simp
  let ?k = "p * length xs div 100"
  have rank: "unat (percentile_rank (lit (of_nat p)) (st_count s')) = ?k + 1"
    using percentile_rank_exact [OF assms(3), of "st_count s'"] small size cnt by simp
  have "p * length xs < 100 * length xs" using assms(3,5) by auto
  then have "?k < length xs" by (simp add: less_mult_imp_div_less mult.commute)
  moreover have "?M \<noteq> {#}" using size assms(5) by (metis length_0_conv size_empty)
  moreover have "sorted_list_of_multiset ?M = xs" using assms(4) by (simp flip: sorted_list_of_multiset_mset)
  ultimately show ?thesis
    using percentile_nearest_rank [OF M small64 _ refl, of "lit (of_nat p)"] rank size by simp
qed

theorem stats_percentile_of_samples_witness: "stats_percentile (lit (of_nat 50)) hist_run = Some 3"
proof -
  have "sort (filter (\<lambda>n. n \<le> 10) [3, 7, 3, 99 :: u64]) = [3, 3, 7]" by code_simp
  then show ?thesis
    using stats_percentile_of_samples [OF run_example, of 50 "[3, 3, 7]"] by simp
qed

section \<open>The correction for coordinated omission\<close>

text \<open>C10: the correction refines its specification. For a histogram that stores the samples \<open>M\<close>,
  \<open>correct(e)\<close> adds for every sample \<open>x\<close> the series \<open>x - e, x - 2 * e, \<dots>\<close> of terms above \<open>e\<close>,
  bucket by bucket and in \<open>count\<close>, although it updates the array it walks over; it leaves \<open>min\<close>
  and \<open>max\<close> at those of the samples before the correction.\<close>

theorem stats_correct_refines:
  assumes "stats_alloc mx = Some s" "record_all ns s = Some s1" "0 < e" "e < 2 ^ 63"
    and "N = mset (filter (\<lambda>n. n \<le> mx) ns) + omitted e (mset (filter (\<lambda>n. n \<le> mx) ns))"
  shows "\<exists>s2. stats_correct e s1 = Some s2 \<and>
    (\<forall>i < st_limit s1. st_data s2 ! unat i = of_nat (count N i)) \<and>
    st_count s2 = of_nat (size N) \<and> st_limit s2 = st_limit s1 \<and>
    st_min s2 = st_min s1 \<and> st_max s2 = st_max s1"
proof -
  have "represents s1 (mset (filter (\<lambda>n. n \<le> mx) ns))" by (rule record_all_accepted [OF assms(1,2)])
  then have "st_min s1 = min_of (mset (filter (\<lambda>n. n \<le> mx) ns))"
    "st_max s1 = max_of (mset (filter (\<lambda>n. n \<le> mx) ns))" by (simp_all add: represents_def)
  with correct_refines [OF record_all_accepted [OF assms(1,2)] assms(3,4)] assms(5) show ?thesis
    by (simp only:)
qed

theorem stats_correct_refines_witness: "st_count (the (stats_correct 2 hist_run)) = 5"
proof -
  have "{#3, 7, 3#} + omitted 2 {#3, 7, 3#} = {#3, 7, 3, 5, 3 :: u64#}" by code_simp
  then show ?thesis
    using stats_correct_refines [OF run_example, of 2 "{#3, 7, 3, 5, 3#}"] by auto
qed

lemma series_length:
  assumes "0 < e" "2 * e < int v"
  shows "1 \<le> n_hits e (int v - e)" "n_hits e (int v - e) \<le> v - 1"
proof -
  have "1 * e \<le> int v - e - 1" using assms(2) by simp
  then have "1 \<le> (int v - e - 1) div e" using assms(1) by (simp add: pos_imp_zdiv_pos_iff int_one_le_iff_zero_less)
  then show "1 \<le> n_hits e (int v - e)" by (simp add: n_hits_def)
  have "(int v - e - 1) div e \<le> int v - e - 1"
    using zdiv_mono2 [of "int v - e - 1" 1 e] assms by simp
  then show "n_hits e (int v - e) \<le> v - 1" using assms(1) by (simp add: n_hits_def)
qed

lemma corrected_uniform:
  assumes "represents s (replicate_mset n v)" "0 < n" "0 < e" "2 * e < int (unat v)" "unat v < 2 ^ 44"
  obtains s' where "stats_correct e s = Some s'" "unat v < length (st_data s')"
    "st_min s' = v" "st_max s' = v" "st_data s' ! unat v = of_nat n"
    "st_count s' = of_nat (n + n * n_hits e (int (unat v) - e))"
proof -
  let ?O = "omitted e (replicate_mset n v)"
  have safe: "stats_safe s" using assms(1) by (simp add: represents_def)
  have v: "int (unat v) < 2 ^ 44" using assms(5) by (simp only: of_nat_less_numeral_power_cancel_iff)
  then have e: "e < 2 ^ 63" "int (unat v) - e < 2 ^ 63" using assms(3,4) by simp_all
  obtain s' where s': "stats_correct e s = Some s'" "st_min s' = v" "st_max s' = v"
    "\<forall>i < st_limit s. st_data s' ! unat i = of_nat (count (replicate_mset n v + ?O) i)"
    "st_count s' = of_nat (size (replicate_mset n v + ?O))"
    using correct_refines [OF assms(1,3) e(1)] assms(2) by (auto simp: min_of_def max_of_def)
  have "stats_safe s'" using stats_correct_safe [OF safe e(1)] s'(1) by auto
  then have "unat v < length (st_data s')" using stats_safeD(2) s'(3) by blast
  moreover have "count ?O v = 0"
    unfolding omitted_def count_sum_mset using e assms(3) by (simp add: count_synth hit_def)
  moreover have "v < st_limit s" using assms(1,2) by (auto simp: represents_def)
  moreover have "size ?O = n * n_hits e (int (unat v) - e)"
    using assms(3) by (simp add: omitted_def size_sum_mset size_synth)
  ultimately show ?thesis using s' by (intro that [of s']) simp_all
qed

text \<open>C38: the percentiles after the correction. The scans start at \<open>min\<close>, which the correction does
  not lower, but the ranks count its synthetic samples. So when all \<open>n\<close> samples have one value \<open>v\<close>
  above twice the interval, every percentile of the report is 0 after the correction, whatever \<open>v\<close>.\<close>

theorem stats_corrected_percentile_zero:
  assumes "stats_alloc mx = Some s" "record_all (replicate n v) s = Some s1" "v \<le> mx" "0 < n"
    and "0 < e" "2 * e < int (unat v)" "n * unat v < 2 ^ 44" "p \<in> {50, 75, 90, 99}"
  shows "\<exists>s2. stats_correct e s1 = Some s2 \<and> stats_percentile (lit (of_nat p)) s2 = Some 0"
proof -
  have M: "represents s1 (replicate_mset n v)"
    using record_all_accepted [OF assms(1,2)] assms(3) by simp
  have "1 * unat v \<le> n * unat v" using assms(4) by (intro mult_le_mono) simp_all
  then have v: "unat v < 2 ^ 44" using assms(7) by linarith
  define T where "T = n + n * n_hits e (int (unat v) - e)"
  obtain s2 where s2: "stats_correct e s1 = Some s2" "unat v < length (st_data s2)"
    "st_min s2 = v" "st_max s2 = v" "st_data s2 ! unat v = of_nat n" "st_count s2 = of_nat T"
    using corrected_uniform [OF M assms(4-6) v] unfolding T_def by blast
  have h: "n \<le> n * n_hits e (int (unat v) - e)" "n_hits e (int (unat v) - e) + 1 \<le> unat v"
    using series_length [OF assms(5,6)] assms(5,6) by simp_all
  have "n * (n_hits e (int (unat v) - e) + 1) \<le> n * unat v" using h(2) by (rule mult_le_mono2)
  then have small: "T < 2 ^ 44" "n < 2 ^ 44" using assms(7) by (simp_all add: T_def)
  then have cnt: "unat (st_count s2) = T" and d: "unat (st_data s2 ! unat v) = n"
    unfolding s2 by (simp_all add: unat_of_nat)
  have "50 * T \<le> p * T" using assms(8) by (intro mult_le_mono1) auto
  moreover have "2 * n \<le> T" using h(1) by (simp add: T_def)
  ultimately have "100 * n \<le> p * T" by linarith
  then have "n \<le> p * T div 100" using div_le_mono [of "100 * n" "p * T" 100] by simp
  then have "n < unat (percentile_rank (lit (of_nat p)) (st_count s2))"
    using percentile_rank_exact [OF assms(8), of "st_count s2"] small cnt by simp
  then have "percentile_loop (percentile_rank (lit (of_nat p)) (st_count s2)) (st_data s2) [v] 0 = Some 0"
    using d s2(2) by (intro percentile_loop_miss) simp_all
  moreover have "st_count s2 \<noteq> 0" using cnt assms(4) by (auto simp: T_def)
  ultimately show ?thesis
    using s2 by (intro exI [of _ s2]) (simp add: stats_percentile_def range_incl_def)
qed

theorem stats_corrected_percentile_zero_witness:
  "\<exists>s2. stats_correct 2 (the (record_all (replicate 3 10) hist_empty)) = Some s2
    \<and> stats_percentile (lit (of_nat 50)) s2 = Some 0"
proof -
  have "record_all (replicate 3 10) hist_empty = Some (the (record_all (replicate 3 10) hist_empty))"
    by code_simp
  then show ?thesis by (rule stats_corrected_percentile_zero [OF run_example(1)]) simp_all
qed

section \<open>Mean, deviation, band and distinct values\<close>

text \<open>C36: the mean. While the number of samples and their sum are at most \<open>2^53\<close>, \<open>mean\<close> returns the
  exact quotient rounded once to binary64 (the sum over the buckets is exact), and the result lies
  between the least and the greatest sample.\<close>

theorem stats_mean_of_samples:
  assumes "stats_alloc mx = Some s" "record_all ns s = Some s'"
    and "xs = filter (\<lambda>n. n \<le> mx) ns" "xs \<noteq> []" "length xs \<le> 2 ^ 53" "sum_list (map unat xs) \<le> 2 ^ 53"
  shows "stats_mean s' = Some (Finite False (rnd (of_nat (sum_list (map unat xs)) / of_nat (length xs))))
    \<and> f64_of_u64 (st_min s') \<le> the (stats_mean s') \<and> the (stats_mean s') \<le> f64_of_u64 (st_max s')"
proof -
  have M: "represents s' (mset xs)" using record_all_accepted [OF assms(1,2)] assms(3) by simp
  have S: "(\<Sum>x \<in># mset xs. unat x) = sum_list (map unat xs)"
    by (metis mset_map sum_mset_sum_list)
  have "mset xs \<noteq> {#}" using assms(4) by simp
  from mean_rounded [OF M this] mean_between [OF M this] assms(5,6) show ?thesis
    unfolding S size_mset by blast
qed

theorem stats_mean_of_samples_witness:
  "stats_mean hist_run = Some (Finite False (rnd (of_nat 13 / of_nat 3)))"
  using stats_mean_of_samples [OF run_example, of "[3, 7, 3]"] by simp

text \<open>C12: the accuracy of the deviation. For \<open>n\<close> samples (from 2 up to \<open>2^51\<close>, with a sum up to \<open>2^53\<close>)
  \<open>stdev\<close> of the computed mean \<open>m\<close> returns a number \<open>r\<close> whose square is the sample variance about
  \<open>m\<close>, the sum of the squared distances divided by \<open>n - 1\<close>, up to \<open>k + 7\<close> relative errors of \<open>2^-53\<close>,
  where \<open>k\<close> is the number of distinct values: no cancellation, no overflow and no underflow occurs.\<close>

theorem stats_stdev_accurate:
  assumes "stats_alloc mx = Some s" "record_all ns s = Some s'" "xs = filter (\<lambda>n. n \<le> mx) ns"
    and "2 \<le> length xs" "length xs \<le> 2 ^ 51" "(\<Sum>x\<leftarrow>xs. unat x) \<le> 2 ^ 53"
  shows "\<exists>m r. stats_mean s' = Some (Finite False m) \<and> stats_stdev (Finite False m) s' = Some (Finite False r) \<and> 0 \<le> r \<and>
    (let V = (\<Sum>x\<leftarrow>xs. (of_nat (unat x) - m) ^ 2) / of_nat (length xs - 1); e = card (set xs) + 7
     in (1 - 2 powi (- 53)) ^ e * V \<le> r ^ 2 \<and> r ^ 2 \<le> (1 + 2 powi (- 53)) ^ e * V)"
proof -
  let ?M = "mset xs" and ?m = "rnd (of_nat (\<Sum>x\<leftarrow>xs. unat x) / of_nat (length xs))"
  have M: "represents s' ?M" using record_all_accepted [OF assms(1,2)] assms(3) by simp
  have S: "(\<Sum>x \<in># ?M. unat x) = (\<Sum>x\<leftarrow>xs. unat x)" by (metis mset_map sum_mset_sum_list)
  have V: "squares m ?M = (\<Sum>x\<leftarrow>xs. (of_nat (unat x) - m) ^ 2)" for m
    by (simp only: squares_def mset_map [symmetric] sum_mset_sum_list)
  have ne: "?M \<noteq> {#}" "0 < length xs" using assms(4) by auto
  have small: "\<forall>x \<in># ?M. unat x \<le> 2 ^ 53"
  proof
    fix x assume "x \<in># ?M"
    then have "unat x \<in> set (map unat xs)" by simp
    then have "unat x \<le> (\<Sum>x\<leftarrow>xs. unat x)" by (intro member_le_sum_list) simp_all
    then show "unat x \<le> 2 ^ 53" using assms(6) by (rule le_trans)
  qed
  have mean: "stats_mean s' = Some (Finite False ?m)"
    using mean_rounded [OF M ne(1)] assms(5,6) unfolding S size_mset by simp
  note m = mean_value [OF ne(2) assms(5,6)]
  have "2 \<le> size ?M" "size ?M \<le> 2 ^ 51" using assms(4,5) by (simp_all only: size_mset)
  from stdev_near [OF M this small m] mean show ?thesis
    unfolding near_def ulp_def V size_mset set_mset_mset Let_def power2_eq_square by blast
qed

theorem stats_stdev_accurate_witness:
  "\<exists>m r. stats_mean hist_run = Some (Finite False m) \<and> stats_stdev (Finite False m) hist_run = Some (Finite False r) \<and> 0 \<le> r \<and>
    (let V = (\<Sum>x\<leftarrow>[3, 7, 3 :: u64]. (of_nat (unat x) - m) ^ 2) / of_nat (length [3, 7, 3 :: u64] - 1);
         e = card (set [3, 7, 3 :: u64]) + 7
     in (1 - 2 powi (- 53)) ^ e * V \<le> r ^ 2 \<and> r ^ 2 \<le> (1 + 2 powi (- 53)) ^ e * V)"
  by (rule stats_stdev_accurate [OF run_example]) (code_simp, simp_all)

text \<open>Runs whose \<open>n\<close> samples all have one value \<open>v\<close>: the mean is \<open>v\<close>, the deviation is 0, and 100
  percent of the samples lie within any band around the mean.\<close>

theorem stats_uniform_run:
  assumes "stats_alloc mx = Some s" "record_all (replicate n v) s = Some s'" "v \<le> mx" "0 < n"
    and "n \<le> 2 ^ 53" "n * unat v \<le> 2 ^ 53"
  shows "stats_mean s' = Some (f64_of_u64 v) \<and> stats_stdev (f64_of_u64 v) s' = Some (Finite False 0)
    \<and> stats_within_stdev (f64_of_u64 v) (Finite False 0) (Finite False k) s' = Some (Finite False 100)"
proof -
  have M: "represents s' (replicate_mset n v)"
    using record_all_accepted [OF assms(1,2)] assms(3) by simp
  note v = uniform_mean [OF M assms(4-6)]
  have band: "{#x \<in># replicate_mset n v. f64_of_u64 v \<le> f64_of_u64 x \<and> f64_of_u64 x \<le> f64_of_u64 v#} = replicate_mset n v"
    by (induction n) (simp_all add: f64_of_u64_small [OF v(2)])
  obtain w where w: "stats_within_stdev (f64_of_u64 v) (Finite False 0) (Finite False k) s'
      = Some (f64_of_u64 w / f64_of_u64 (st_count s') * lit 100)" "unat w = n"
    using within_count [OF M _ _ refl refl, of "f64_of_u64 v" "Finite False 0" "Finite False k"] assms(4,5)
    by (auto simp: f64_zero_ops f64_add_zero [OF v(2)] band)
  have "w = st_count s'" using w(2) unat_st_count [OF M] assms(5) by (simp add: word_unat_eq_iff)
  then have "f64_of_u64 w / f64_of_u64 (st_count s') * lit 100 = Finite False 100"
    using percentage_bound [of w "st_count s'"] w(2) assms(4,5) by auto
  then show ?thesis using w(1) v(1) uniform_stdev [OF M assms(4,5) v(2)] by simp
qed

theorem stats_uniform_run_witness:
  "stats_mean (the (record_all (replicate 3 10) hist_empty)) = Some (f64_of_u64 10)"
proof -
  have "record_all (replicate 3 10) hist_empty = Some (the (record_all (replicate 3 10) hist_empty))"
    by code_simp
  then show ?thesis using stats_uniform_run [OF run_example(1), of 3 10] by simp
qed

text \<open>C37: the share of samples within a band. For every mean and deviation, numbers or not, the result is the
  number of accepted samples that lie within \<open>k\<close> deviations of the mean, both ends included and both ends
  rounded to a float, divided by the number of all of them and times 100; it is a number between 0 and 100, and 0 for an
  empty histogram (up to \<open>2^53\<close> samples).\<close>

theorem stats_within_share:
  assumes "stats_alloc mx = Some s" "record_all ns s = Some s'" "length ns \<le> 2 ^ 53"
    and "accepted = filter (\<lambda>n. n \<le> mx) ns"
    and "inside = filter (\<lambda>n. m - d * k \<le> f64_of_u64 n \<and> f64_of_u64 n \<le> m + d * k) accepted"
  shows "\<exists>r. stats_within_stdev m d k s' = Some (Finite False r) \<and> 0 \<le> r \<and> r \<le> 100 \<and>
    Finite False r = (if accepted = [] then lit 0
      else f64_of_u64 (of_nat (length inside)) / f64_of_u64 (of_nat (length accepted)) * lit 100)"
proof (cases "accepted = []")
  case True
  then have "st_count s' = 0" using record_all_accepted [OF assms(1,2)] by (simp add: assms(4) represents_def)
  then show ?thesis using True by (simp add: stats_within_stdev_def f64_zero_ops)
next
  case False
  have M: "represents s' (mset accepted)" using record_all_accepted [OF assms(1,2)] by (simp add: assms(4))
  have small: "length accepted \<le> 2 ^ 53" using assms(3) unfolding assms(4) by (meson le_trans length_filter_le)
  then have small64: "size (mset accepted) < 2 ^ 64" unfolding size_mset by simp
  have cnt: "unat (st_count s') = length accepted" using unat_st_count [OF M small64] by (simp only: size_mset)
  obtain w where w: "stats_within_stdev m d k s' = Some (f64_of_u64 w / f64_of_u64 (st_count s') * lit 100)"
    "unat w = size {#x \<in># mset accepted. m - d * k \<le> f64_of_u64 x \<and> f64_of_u64 x \<le> m + d * k#}"
    using within_count [OF M small64 _ refl refl, of m d k] False by (auto simp del: mset_filter)
  then have inside: "unat w = length inside" unfolding assms(5) by (metis mset_filter size_mset)
  have le: "length inside \<le> length accepted" unfolding assms(5) by (rule length_filter_le)
  have "0 < length accepted" using False by (rule length_greater_0_conv [THEN iffD2])
  then obtain r where "f64_of_u64 w / f64_of_u64 (st_count s') * lit 100 = Finite False r" "0 \<le> r" "r \<le> 100"
    using percentage_bound [of w "st_count s'"] inside le cnt small by auto
  moreover have "w = of_nat (length inside)" "st_count s' = of_nat (length accepted)"
    unfolding inside [symmetric] cnt [symmetric] by simp_all
  ultimately show ?thesis using w(1) False by auto
qed

theorem stats_within_share_witness:
  "\<exists>r. stats_within_stdev (lit 4) (lit 2) (lit 1) hist_run = Some (Finite False r) \<and> 0 \<le> r \<and> r \<le> 100"
  using stats_within_share [OF run_example _ refl refl, of "lit 4" "lit 2" "lit 1"] by auto

text \<open>C40: \<open>popcount\<close> is the number of distinct values among the samples that the histogram accepted,
  whatever was recorded, in which order and how often.\<close>

theorem stats_popcount_distinct:
  assumes "stats_alloc mx = Some s" "record_all ns s = Some s'" "length ns < 2 ^ 64"
  shows "stats_popcount s' = Some (of_nat (card {n \<in> set ns. n \<le> mx}))"
proof -
  let ?xs = "filter (\<lambda>n. n \<le> mx) ns"
  have "length ?xs < 2 ^ 64" using assms(3) by (meson le_less_trans length_filter_le)
  then have "size (mset ?xs) < 2 ^ 64" unfolding size_mset .
  from popcount_distinct [OF record_all_accepted [OF assms(1,2)] this] show ?thesis by simp
qed

theorem stats_popcount_distinct_witness: "stats_popcount hist_run = Some 2"
proof -
  have "{n \<in> set [3, 7, 3, 99 :: u64]. n \<le> 10} = {3, 7}" by auto
  then show ?thesis using stats_popcount_distinct [OF run_example] by simp
qed

end
