(* ===== verification/Units.thy ===== *)
theory Units
  imports Rust_Str
begin

text \<open>
  The component \<open>src/units.rs\<close>: printing a magnitude with a unit (\<open>format_units\<close> and its four
  callers) and scanning a number with a unit (\<open>scan_metric\<close>, \<open>scan_time\<close>). Floats are the
  \<open>f64\<close> of \<open>F64\<close>, so the threshold \<open>scale * 0.85\<close> is the rounded product the program
  compares with. The ladders share the locale \<open>unit_ladder\<close>.
\<close>

section \<open>Definitions\<close>

definition BINARY_UNITS :: "string list" where
  "BINARY_UNITS = [''K'', ''M'', ''G'', ''T'', ''P'']"

definition METRIC_UNITS :: "string list" where
  "METRIC_UNITS = [''k'', ''M'', ''G'', ''T'', ''P'']"

definition TIME_UNITS_US :: "string list" where
  "TIME_UNITS_US = [''ms'', ''s'']"

definition TIME_UNITS_S :: "string list" where
  "TIME_UNITS_S = [''m'', ''h'']"

text \<open>The loop of \<open>format_units\<close>, with its variables \<open>i\<close>, \<open>amt\<close> and \<open>unit\<close>.\<close>

function promote :: "f64 \<Rightarrow> f64 \<Rightarrow> string list \<Rightarrow> nat \<Rightarrow> f64 \<Rightarrow> string \<Rightarrow> f64 \<times> string" where
  "promote scale threshold units i amt u =
     (if i + 1 < length units \<and> threshold \<le> amt
      then promote scale threshold units (i + 1) (amt / scale) (units ! i)
      else (amt, u))"
  by pat_completeness auto
termination
  by (relation "measure (\<lambda>(scale, threshold, units, i, amt, u). length units - i)") auto

declare promote.simps [simp del]

definition format_units :: "f64 \<Rightarrow> f64 \<Rightarrow> string \<Rightarrow> string list \<Rightarrow> nat \<Rightarrow> string" where
  "format_units n scale base units precision =
     (let threshold = scale * lit (85 / 100);
          (amt, u) = promote scale threshold units 0 n base
      in fmt_fixed precision amt @ u)"

definition format_binary :: "f64 \<Rightarrow> string" where
  "format_binary n = format_units n (lit 1024) '''' BINARY_UNITS 2"

definition format_metric :: "f64 \<Rightarrow> string" where
  "format_metric n = format_units n (lit 1000) '''' METRIC_UNITS 2"

definition format_time_us :: "f64 \<Rightarrow> string" where
  "format_time_us n =
     (if lit 1000000 \<le> n
      then format_units (n / lit 1000000) (lit 60) ''s'' TIME_UNITS_S 2
      else format_units n (lit 1000) ''us'' TIME_UNITS_US 2)"

definition format_time_s :: "f64 \<Rightarrow> string" where
  "format_time_s n = format_units n (lit 60) ''s'' TIME_UNITS_S 0"

text \<open>Leading digits, and the rest cut to at most two characters.\<close>

definition split_unit :: "string \<Rightarrow> string \<times> string" where
  "split_unit s =
     (let trimmed = trim s;
          digits_end = length (takeWhile is_digit trimmed);
          a = take digits_end trimmed;
          b = drop digits_end trimmed;
          e = (if b = [] then length b else char_end 2 b);
          b2 = (if e \<le> length b then take e b else b)
      in (a, b2))"

definition scan_time :: "string \<Rightarrow> u64 option" where
  "scan_time s =
     (let (base, rest) = split_unit s in do {
        val \<leftarrow> parse_u64 base;
        let unit = to_ascii_lowercase rest;
        if unit = '''' \<or> unit = ''s'' then Some val
        else if unit = ''m'' then checked_mul val 60
        else if unit = ''h'' then checked_mul val 3600
        else None
      })"

fun scan_loop :: "u64 \<Rightarrow> u64 \<Rightarrow> string \<Rightarrow> string list \<Rightarrow> u64 \<Rightarrow> u64 option" where
  "scan_loop val scale lower [] mlt = None"
| "scan_loop val scale lower (u # us) mlt = do {
     m \<leftarrow> checked_mul mlt scale;
     if lower = to_ascii_lowercase u then checked_mul val m
     else scan_loop val scale lower us m
   }"

definition scan_units :: "string \<Rightarrow> u64 \<Rightarrow> string list \<Rightarrow> u64 option" where
  "scan_units s scale units =
     (let (base, rest) = split_unit s in do {
        val \<leftarrow> parse_u64 base;
        if rest = [] then Some val
        else scan_loop val scale (to_ascii_lowercase rest) units 1
      })"

definition scan_metric :: "string \<Rightarrow> u64 option" where
  "scan_metric s = scan_units s 1000 METRIC_UNITS"

section \<open>The ladder of units\<close>

text \<open>The value after \<open>j\<close> divisions by the scale, each rounded.\<close>

definition divided :: "f64 \<Rightarrow> nat \<Rightarrow> f64 \<Rightarrow> f64" where
  "divided scale j n = ((\<lambda>x. x / scale) ^^ j) n"

lemma divided_Suc: "divided scale (Suc j) n = divided scale j (n / scale)"
  using funpow_swap1 [of "\<lambda>x. x / scale" j n] by (simp add: divided_def)

lemma divided_0 [simp]: "divided scale 0 n = n"
  by (simp add: divided_def)

text \<open>
  A magnitude as it is printed: divided \<open>j\<close> times and followed by the \<open>j\<close>-th label, where \<open>j\<close> is the
  first number of divisions that takes it below 85 percent of the scale, or the last one possible.
\<close>

definition on_ladder :: "f64 \<Rightarrow> string list \<Rightarrow> nat \<Rightarrow> f64 \<Rightarrow> string \<Rightarrow> bool" where
  "on_ladder scale labels p n shown \<longleftrightarrow> (\<exists>j < length labels.
     shown = fmt_fixed p (divided scale j n) @ labels ! j \<and>
     (\<forall>k < j. scale * lit (85 / 100) \<le> divided scale k n) \<and>
     (Suc j < length labels \<longrightarrow> \<not> scale * lit (85 / 100) \<le> divided scale j n) \<and>
     (0 < j \<longrightarrow> lit (85 / 100) \<le> divided scale j n))"

text \<open>
  What a ladder promises its callers: dividing a value that reached the threshold by the scale
  leaves at least \<open>low\<close>. The lemma then describes every run of the loop.
\<close>

locale unit_ladder =
  fixes scale thr low :: f64 and units :: "string list"
  assumes units_ne: "units \<noteq> []"
    and step_ok: "f64_ok a \<Longrightarrow> thr \<le> a \<Longrightarrow> f64_ok (a / scale)"
    and step_low: "f64_ok a \<Longrightarrow> thr \<le> a \<Longrightarrow> low \<le> a / scale"
begin

definition rung :: "nat \<Rightarrow> f64 \<Rightarrow> string \<Rightarrow> nat \<Rightarrow> f64 \<Rightarrow> string \<Rightarrow> bool" where
  "rung i a u j b v \<longleftrightarrow> i \<le> j \<and> j < length units \<and> v = (if j = i then u else units ! (j - 1)) \<and>
     b = divided scale (j - i) a \<and> (\<forall>k < j - i. thr \<le> divided scale k a) \<and> (i < j \<longrightarrow> low \<le> b) \<and>
     (Suc j < length units \<longrightarrow> \<not> thr \<le> b)"

lemma rung_up:
  assumes "rung (i + 1) (a / scale) (units ! i) j b v" "thr \<le> a" "low \<le> a / scale"
  shows "rung i a u j b v"
proof -
  have j: "Suc i \<le> j" using assms(1) by (simp add: rung_def)
  then have "j - i = Suc (j - (i + 1))" by arith
  note j = j this
  have "thr \<le> divided scale k a" if "k < j - i" for k
    using that assms(1,2) j(2) by (cases k) (simp_all add: rung_def divided_Suc)
  moreover have "b = divided scale (j - i) a" using assms(1) unfolding j(2) by (simp add: rung_def divided_Suc)
  moreover have "low \<le> b" using assms(1,3) j(1) by (cases "j = i + 1") (auto simp: rung_def)
  ultimately show ?thesis using assms(1) j(1) by (auto simp: rung_def)
qed

lemma promote_rung:
  assumes "f64_ok a" "i < length units"
  shows "\<exists>j b v. promote scale thr units i a u = (b, v) \<and> rung i a u j b v"
  using assms
proof (induction "length units - i" arbitrary: i a u rule: less_induct)
  case less
  show ?case
  proof (cases "i + 1 < length units \<and> thr \<le> a")
    case True
    then have "\<exists>j b v. promote scale thr units (i + 1) (a / scale) (units ! i) = (b, v)
        \<and> rung (i + 1) (a / scale) (units ! i) j b v"
      using less.prems True by (intro less.hyps) (simp_all add: step_ok diff_less_mono2)
    then obtain j b v where IH: "promote scale thr units (i + 1) (a / scale) (units ! i) = (b, v)"
      "rung (i + 1) (a / scale) (units ! i) j b v" by blast
    have "promote scale thr units i a u = (b, v)"
      using True IH(1) by (subst promote.simps) simp
    moreover have "rung i a u j b v"
      using rung_up [OF IH(2)] True step_low [OF less.prems(1)] by blast
    ultimately show ?thesis by blast
  next
    case False
    then have "promote scale thr units i a u = (a, u)" by (subst promote.simps) auto
    moreover have "rung i a u i a u" using False less.prems by (auto simp: rung_def divided_def)
    ultimately show ?thesis by blast
  qed
qed

lemma format_rung:
  assumes "f64_ok n" "thr = scale * lit (85 / 100)" "low = lit (85 / 100)" "labels = base # butlast units"
  shows "on_ladder scale labels p n (format_units n scale base units p)"
proof -
  obtain j b v where P: "promote scale thr units 0 n base = (b, v)" and R: "rung 0 n base j b v"
    using promote_rung [OF assms(1), of 0 base] units_ne by auto
  have "format_units n scale base units p = fmt_fixed p b @ v"
    using P assms(2) by (simp add: format_units_def)
  moreover have "length labels = length units" using units_ne assms(4) by (cases units) simp_all
  moreover have "v = labels ! j"
    using R assms(4) by (cases j) (auto simp: rung_def nth_butlast)
  ultimately show ?thesis
    using R unfolding on_ladder_def assms(3) [symmetric] assms(2) [folded assms(3), symmetric]
    by (intro exI [of _ j]) (auto simp: rung_def)
qed

end

text \<open>The constants of the three scales, computed.\<close>

lemma thr_1024: "lit 1024 * lit (85 / 100) = Finite False (7656119366529843 / 8796093022208)"
  and thr_1000: "lit 1000 * lit (85 / 100) = Finite False 850"
  and thr_60: "lit 60 * lit (85 / 100) = Finite False 51"
  and lit_85: "lit (85 / 100) = Finite False (7656119366529843 / 9007199254740992)"
  by code_simp+

lemma rnd_85: "rnd (85 / 100) = 7656119366529843 / 9007199254740992"
  by code_simp

lemmas thr_simps = thr_1024 [simplified] thr_1000 [simplified] thr_60 [simplified]

lemma f64_ok_div: "f64_ok a \<Longrightarrow> f64_ok (a / Finite False c)" if "0 < c"
  using that is_rep_nonneg by (cases a) (auto simp: divide_f64_def f64_ok_fl)

lemma ladder_law:
  assumes "0 < c" "0 < t" "rnd (t / c) = rnd (85 / 100)" "t / c \<le> 1" "us \<noteq> []"
  shows "unit_ladder (Finite False c) (Finite False t) (lit (85 / 100)) us"
proof
  fix a assume a: "f64_ok a" "Finite False t \<le> a"
  show "f64_ok (a / Finite False c)" using a(1) assms(1) by (rule f64_ok_div [rotated])
  have "(1 :: rat) \<le> p2 200" by simp
  then have "t / c \<le> p2 200" using assms(4) by linarith
  then have "Finite False (rnd (t / c)) \<le> a / Finite False c"
    using f64_div_mono [of t c a] a assms(1,2) by simp
  moreover have "lit (85 / 100) = Finite False (rnd (t / c))" unfolding assms(3) lit_85 rnd_85 ..
  ultimately show "lit (85 / 100) \<le> a / Finite False c" by (simp only:)
qed (rule assms)

interpretation binary_ladder: unit_ladder "Finite False 1024"
  "Finite False (7656119366529843 / 8796093022208)" "lit (85 / 100)" BINARY_UNITS
  by (rule ladder_law) (simp_all add: BINARY_UNITS_def rnd_85, code_simp)

interpretation metric_ladder: unit_ladder "Finite False 1000" "Finite False 850"
  "lit (85 / 100)" METRIC_UNITS
  by (rule ladder_law) (simp_all add: METRIC_UNITS_def)

interpretation time_us_ladder: unit_ladder "Finite False 1000" "Finite False 850"
  "lit (85 / 100)" TIME_UNITS_US
  by (rule ladder_law) (simp_all add: TIME_UNITS_US_def)

interpretation time_s_ladder: unit_ladder "Finite False 60" "Finite False 51"
  "lit (85 / 100)" TIME_UNITS_S
  by (rule ladder_law) (simp_all add: TIME_UNITS_S_def)

section \<open>Scanning\<close>

text \<open>Printable ASCII: what trimming never removes.\<close>

definition plain :: "char \<Rightarrow> bool" where
  "plain c \<longleftrightarrow> 32 < code c \<and> code c < 128"

lemma strip_id:
  assumes "\<forall>w \<in> set ws. s \<noteq> [] \<longrightarrow> w \<noteq> [] \<longrightarrow> hd w \<noteq> hd s"
  shows "strip ws s = s"
proof -
  have "List.find (\<lambda>w. w \<noteq> [] \<and> s \<noteq> [] \<and> take (length w) s = w) ws = None"
    unfolding find_None_iff using assms by (metis hd_take length_greater_0_conv)
  then show ?thesis by (subst strip.simps) simp
qed

lemma white_space_not_plain:
  "w \<in> set white_space \<Longrightarrow> \<not> plain (hd w) \<and> \<not> plain (last w)"
  by (auto simp: white_space_def plain_def code_def of_char_of)

lemma trim_plain:
  assumes "s = [] \<or> plain (hd s) \<and> plain (last s)"
  shows "trim s = s"
proof -
  have "strip white_space s = s"
    using assms white_space_not_plain by (intro strip_id) metis
  moreover have "strip (map rev white_space) (rev s) = rev s"
    using assms by (intro strip_id) (auto simp: hd_rev, metis white_space_not_plain)
  ultimately show ?thesis by (simp add: trim_def)
qed

lemma plain_digit: "is_digit c \<Longrightarrow> plain c"
  by (simp add: plain_def is_digit_def)

lemma split_unit_show:
  assumes "u = [] \<or> plain (last u)" "length u \<le> 2" "\<forall>c \<in> set u. code c < 128"
    and "\<forall>c cs. u = c # cs \<longrightarrow> \<not> is_digit c"
  shows "split_unit (show_u64 n @ u) = (show_u64 n, u)"
proof -
  let ?d = "show_dec (uint n)"
  have digits: "list_all is_digit ?d" by (rule show_dec_digits) simp
  then have ends: "plain (hd ?d)" "plain (last ?d)"
    by (auto simp: list_all_iff plain_digit)
  then have "trim (?d @ u) = ?d @ u"
    using assms(1) by (intro trim_plain) (cases "u = []"; auto)
  moreover have "takeWhile is_digit (?d @ u) = ?d"
    using assms(4) by (intro takeWhile_show_dec) simp_all
  moreover have "u \<noteq> [] \<Longrightarrow> char_end 2 u = length u"
    using assms(2,3) by (cases u; cases "tl u") (auto simp: utf8_len_def numeral_2_eq_2)
  ultimately show ?thesis by (simp add: split_unit_def show_u64_def Let_def)
qed

text \<open>What a suffix of \<open>scan_metric\<close> means: the power of 1000 it stands for.\<close>

definition metric_power :: "string \<Rightarrow> nat option" where
  "metric_power u = map_of [('''', 0), (''k'', 1), (''m'', 2), (''g'', 3), (''t'', 4), (''p'', 5)] u"

definition time_factor :: "string \<Rightarrow> u64 option" where
  "time_factor u = map_of [('''', 1), (''s'', 1), (''m'', 60), (''h'', 3600)] u"

lemma checked_mul_one: "checked_mul v 1 = Some v"
  using unat_lt_64 [of v] by (simp add: checked_mul_Some_iff)

lemma scan_loop_metric:
  "scan_loop v 1000 lower METRIC_UNITS 1 =
     (if lower = [] then None else case metric_power lower of None \<Rightarrow> None | Some k \<Rightarrow> checked_mul v (1000 ^ k))"
proof -
  have powers: "checked_mul 1 1000 = Some 1000" "checked_mul 1000 1000 = Some (1000 ^ 2)"
    "checked_mul (1000 ^ 2) 1000 = Some (1000 ^ 3)" "checked_mul (1000 ^ 3) 1000 = Some (1000 ^ 4)"
    "checked_mul (1000 ^ 4) 1000 = Some (1000 ^ 5)"
    by (simp_all add: checked_mul_def)
  have lower: "to_ascii_lowercase ''k'' = ''k''" "to_ascii_lowercase ''M'' = ''m''"
    "to_ascii_lowercase ''G'' = ''g''" "to_ascii_lowercase ''T'' = ''t''"
    "to_ascii_lowercase ''P'' = ''p''" by code_simp+
  show ?thesis
    unfolding METRIC_UNITS_def scan_loop.simps lower powers Option.bind.bind_lunit
    by (simp add: metric_power_def)
qed

lemma scan_metric_split:
  assumes "split_unit s = (base, rest)"
  shows "scan_metric s = do {
     v \<leftarrow> parse_u64 base; k \<leftarrow> metric_power (to_ascii_lowercase rest); checked_mul v (1000 ^ k) }"
  using assms
  by (cases "parse_u64 base"; cases "rest = []")
     (auto simp: scan_metric_def scan_units_def scan_loop_metric checked_mul_one metric_power_def
       to_ascii_lowercase_def split: option.splits)

lemma scan_time_split:
  assumes "split_unit s = (base, rest)"
  shows "scan_time s = do {
     v \<leftarrow> parse_u64 base; f \<leftarrow> time_factor (to_ascii_lowercase rest); checked_mul v f }"
  using assms
  by (cases "parse_u64 base") (auto simp: scan_time_def time_factor_def checked_mul_one Let_def)

text \<open>A suffix that stands for a unit is empty or one letter, which \<open>split_unit\<close> cuts off whole.\<close>

lemma to_lower_alpha: "is_alpha (to_lower c) \<Longrightarrow> is_alpha c"
  by (auto simp: to_lower_def is_alpha_def split: if_splits)

lemma alpha_facts: "is_alpha c \<Longrightarrow> plain c \<and> code c < 128 \<and> \<not> is_digit c"
  by (auto simp: is_alpha_def plain_def is_digit_def)

lemma split_unit_letter:
  assumes "to_ascii_lowercase u = [] \<or> (\<exists>d. to_ascii_lowercase u = [d] \<and> is_alpha d)"
  shows "split_unit (show_u64 n @ u) = (show_u64 n, u)"
proof -
  have "u = [] \<or> (\<exists>c. u = [c] \<and> is_alpha c)"
    using assms to_lower_alpha by (auto simp: to_ascii_lowercase_def)
  then show ?thesis using alpha_facts by (intro split_unit_show) auto
qed

lemma metric_power_letter:
  "metric_power w = Some k \<Longrightarrow> k \<le> 5 \<and> (w = [] \<or> (\<exists>d. w = [d] \<and> is_alpha d))"
  by (auto simp: metric_power_def is_alpha_def code_def split: if_splits)

lemma time_factor_letter:
  "time_factor w = Some f \<Longrightarrow> w = [] \<or> (\<exists>d. w = [d] \<and> is_alpha d)"
  by (auto simp: time_factor_def is_alpha_def code_def split: if_splits)

lemma unat_1000_power: "k \<le> 5 \<Longrightarrow> unat (1000 ^ k :: u64) = 1000 ^ k"
proof -
  assume "k \<le> 5"
  then have "k \<in> set [0, 1, 2, 3, 4, 5]" by auto
  then show ?thesis by auto
qed

lemma scan_metric_exact:
  assumes "scan_metric s = Some v" "split_unit s = (base, rest)"
  shows "\<exists>n k. parse_u64 base = Some n \<and> metric_power (to_ascii_lowercase rest) = Some k
      \<and> unat v = unat n * 1000 ^ k"
  using assms(1) metric_power_letter unfolding scan_metric_split [OF assms(2)]
  by (fastforce simp: checked_mul_Some_iff unat_1000_power unat_mul_no_wrap
      split: Option.bind_splits)

lemma scan_time_exact:
  assumes "scan_time s = Some v" "split_unit s = (base, rest)"
  shows "\<exists>n f. parse_u64 base = Some n \<and> time_factor (to_ascii_lowercase rest) = Some f
      \<and> unat v = unat n * unat f"
  using assms(1) unfolding scan_time_split [OF assms(2)]
  by (auto simp: checked_mul_Some_iff unat_mul_no_wrap split: Option.bind_splits)

section \<open>Printing whole numbers\<close>

lemma fmt_fixed_int: "fmt_fixed 2 (Finite False (of_int m)) = show_dec m @ ''.00''" if "0 \<le> m"
proof -
  have "round_even (of_int m * 10 ^ 2) = m * 100"
    using round_even_int [of "m * 100"] by simp
  then show ?thesis
    by (simp add: Let_def numeral_2_eq_2 digit_char_def code_def) code_simp
qed

lemma fmt_fixed_0_int: "fmt_fixed 0 (Finite False (of_int m)) = show_dec m"
  by (simp add: Let_def)

lemma promote_two:
  "promote scale thr [x, y] 0 n u = (if thr \<le> n then (n / scale, x) else (n, u))"
  by (subst promote.simps, subst promote.simps) simp

lemma f64_of_u64_le_iff:
  assumes "unat n \<le> 2 ^ 53"
  shows "Finite False (numeral k) \<le> f64_of_u64 n \<longleftrightarrow> numeral k \<le> unat n"
proof -
  have "(numeral k :: rat) \<le> of_nat (unat n) \<longleftrightarrow> numeral k \<le> unat n"
    by (metis of_nat_le_iff of_nat_numeral)
  with assms show ?thesis by (simp add: f64_of_u64_small)
qed

lemma format_time_us_small:
  assumes "unat n < 1000000"
  shows "format_time_us (f64_of_u64 n) = (if 850 \<le> unat n
    then fmt_fixed 2 (f64_of_u64 n / lit 1000) @ ''ms'' else show_u64 n @ ''.00us'')"
proof -
  have small: "unat n \<le> 2 ^ 53" using assms by simp
  have "\<not> lit 1000000 \<le> f64_of_u64 n"
    using assms small by (simp add: lit_numeral f64_of_u64_le_iff)
  then have "format_time_us (f64_of_u64 n) = format_units (f64_of_u64 n) (lit 1000) ''us'' [''ms'', ''s''] 2"
    by (simp add: format_time_us_def TIME_UNITS_US_def)
  also have "\<dots> = (if 850 \<le> unat n then fmt_fixed 2 (f64_of_u64 n / lit 1000) @ ''ms''
      else fmt_fixed 2 (f64_of_u64 n) @ ''us'')"
    using small by (simp add: format_units_def thr_simps promote_two f64_of_u64_le_iff Let_def)
  also have "fmt_fixed 2 (f64_of_u64 n) = show_u64 n @ ''.00''"
    using small fmt_fixed_int [of "uint n"] by (simp add: f64_of_u64_small show_u64_def)
  finally show ?thesis by simp
qed

lemma format_time_s_small:
  assumes "unat n \<le> 2 ^ 53"
  shows "format_time_s (f64_of_u64 n) = (if 51 \<le> unat n
    then fmt_fixed 0 (f64_of_u64 n / lit 60) @ ''m'' else show_u64 n @ ''s'')"
proof -
  have "format_time_s (f64_of_u64 n) = (if 51 \<le> unat n then fmt_fixed 0 (f64_of_u64 n / lit 60) @ ''m''
      else fmt_fixed 0 (f64_of_u64 n) @ ''s'')"
    using assms by (simp add: format_time_s_def TIME_UNITS_S_def format_units_def thr_simps promote_two
        f64_of_u64_le_iff Let_def)
  also have "fmt_fixed 0 (f64_of_u64 n) = show_u64 n"
    using assms fmt_fixed_0_int [of "uint n"] by (simp add: f64_of_u64_small show_u64_def)
  finally show ?thesis .
qed

end
