(* ===== verification/Units_Props.thy ===== *)
theory Units_Props
  imports Units
begin

text \<open>
  The properties of \<open>src/units.rs\<close>: which unit a magnitude is printed with, and what the
  suffixes of the command line mean.
\<close>

section \<open>Printing\<close>

text \<open>C35: the ladder of units. Whatever the value, byte counts (scale 1024), rates (1000), times below a second
  (1000, from microseconds), longer times and durations (60, from seconds) are printed divided by the
  scale \<open>j\<close> times and followed by the \<open>j\<close>-th label, with two decimals, durations with none. Here \<open>j\<close> is the
  first number of divisions that takes the value below 85 percent of the scale, or the last one the
  loop makes, which is one before the end of the list of units: \<open>P\<close>, \<open>h\<close> and the \<open>s\<close> of the microseconds
  are never printed. With a unit the figure printed is at least 0.85.\<close>

theorem format_ladders:
  assumes "f64_ok n"
  shows "on_ladder (lit 1024) ['''', ''K'', ''M'', ''G'', ''T''] 2 n (format_binary n) \<and>
    on_ladder (lit 1000) ['''', ''k'', ''M'', ''G'', ''T''] 2 n (format_metric n) \<and>
    (if lit 1000000 \<le> n then on_ladder (lit 60) [''s'', ''m''] 2 (n / lit 1000000) (format_time_us n)
     else on_ladder (lit 1000) [''us'', ''ms''] 2 n (format_time_us n)) \<and>
    on_ladder (lit 60) [''s'', ''m''] 0 n (format_time_s n)"
proof -
  have lits: "lit 1024 = Finite False 1024" "lit 1000 = Finite False 1000" "lit 60 = Finite False 60"
    "lit 1000000 = Finite False 1000000"
    by (simp_all add: lit_numeral)
  note thr = thr_1024 [unfolded lits, symmetric] thr_1000 [unfolded lits, symmetric] thr_60 [unfolded lits, symmetric]
  note units = BINARY_UNITS_def METRIC_UNITS_def TIME_UNITS_US_def TIME_UNITS_S_def
  have million: "f64_ok (n / Finite False 1000000)" using assms by (intro f64_ok_div) simp_all
  show ?thesis
    unfolding format_binary_def format_metric_def format_time_us_def format_time_s_def lits
    using binary_ladder.format_rung [OF assms thr(1) refl, of _ "''''" 2]
      metric_ladder.format_rung [OF assms thr(2) refl, of _ "''''" 2]
      time_us_ladder.format_rung [OF assms thr(2) refl, of _ "''us''" 2]
      time_s_ladder.format_rung [OF assms thr(3) refl, of _ "''s''" 0]
      time_s_ladder.format_rung [OF million thr(3) refl, of _ "''s''" 2]
    by (simp add: units)
qed

theorem format_ladders_witness:
  "format_metric (lit 1500) = ''1.50k'' \<and> on_ladder (lit 1000) ['''', ''k'', ''M'', ''G'', ''T''] 2 (lit 1500) ''1.50k''"
proof -
  have "f64_ok (lit 1500)" unfolding lit_def by (rule f64_ok_fl) simp
  moreover have "format_metric (lit 1500) = ''1.50k''" by code_simp
  ultimately show ?thesis using format_ladders [of "lit 1500"] by metis
qed

text \<open>Times below one second. A whole number of microseconds below a million is printed as such
  with \<open>us\<close> up to 849, and divided by 1000 with \<open>ms\<close> from 850 on; it is never printed in seconds.\<close>

theorem format_time_us_thresholds:
  assumes "unat n < 1000000"
  shows "format_time_us (f64_of_u64 n) = (if unat n < 850 then show_u64 n @ ''.00us''
    else fmt_fixed 2 (f64_of_u64 n / lit 1000) @ ''ms'')"
  using format_time_us_small [OF assms] by simp

theorem format_time_us_thresholds_witness: "format_time_us (f64_of_u64 849) = show_u64 849 @ ''.00us''"
  using format_time_us_thresholds [of 849] by simp

text \<open>Durations in seconds. Up to 50 seconds are printed as they are, and everything from 51 seconds
  on in minutes: the loop stops before the last unit, so no duration is printed in hours.\<close>

theorem format_time_s_no_hours:
  assumes "unat n \<le> 2 ^ 53"
  shows "format_time_s (f64_of_u64 n) = (if unat n < 51 then show_u64 n @ ''s''
    else fmt_fixed 0 (f64_of_u64 n / lit 60) @ ''m'')"
  using format_time_s_small [OF assms] by simp

theorem format_time_s_no_hours_witness: "format_time_s (f64_of_u64 36000) = ''600m''"
proof -
  have "fmt_fixed 0 (f64_of_u64 36000 / lit 60) = ''600''" by code_simp
  then show ?thesis using format_time_s_no_hours [of 36000] by simp
qed

section \<open>Scanning\<close>

lemma checked_mul_as_if:
  "checked_mul a b = (if unat a * unat b < 2 ^ 64 then Some (of_nat (unat a * unat b)) else None)"
  unfolding checked_mul_def uint_mul_lt_iff_unat by simp

text \<open>C33: round trip of the metric scanner. A number printed in decimal and followed by nothing or by a
  unit letter of either case is read back as the number times that power of 1000, and is refused
  exactly when the product does not fit in 64 bits.\<close>

theorem scan_metric_print:
  assumes "metric_power (to_ascii_lowercase u) = Some k"
  shows "scan_metric (show_u64 n @ u) =
    (if unat n * 1000 ^ k < 2 ^ 64 then Some (of_nat (unat n * 1000 ^ k)) else None)"
proof -
  note letter = metric_power_letter [OF assms]
  have split: "split_unit (show_u64 n @ u) = (show_u64 n, u)" using letter by (intro split_unit_letter) simp
  show ?thesis
    using letter unat_1000_power [of k]
    by (simp add: scan_metric_split [OF split] assms checked_mul_as_if)
qed

theorem scan_metric_print_witness: "scan_metric (show_u64 12 @ ''M'') = Some 12000000"
proof -
  have "metric_power (to_ascii_lowercase ''M'') = Some 2" by code_simp
  then show ?thesis using scan_metric_print [of "''M''" 2 12] by simp
qed

text \<open>C34: round trip of the time scanner: seconds, minutes and hours, refused exactly on overflow.\<close>

theorem scan_time_print:
  assumes "time_factor (to_ascii_lowercase u) = Some f"
  shows "scan_time (show_u64 n @ u) =
    (if unat n * unat f < 2 ^ 64 then Some (of_nat (unat n * unat f)) else None)"
proof -
  have split: "split_unit (show_u64 n @ u) = (show_u64 n, u)"
    using time_factor_letter [OF assms] by (intro split_unit_letter) simp
  show ?thesis by (simp add: scan_time_split [OF split] assms parse_u64_show checked_mul_as_if)
qed

theorem scan_time_print_witness: "scan_time (show_u64 2 @ ''H'') = Some 7200"
proof -
  have "time_factor (to_ascii_lowercase ''H'') = Some 3600" by code_simp
  then show ?thesis using scan_time_print [of "''H''" 3600 2] by simp
qed

text \<open>C39: the scanners never wrap: whatever text they accept, the value is the leading number times the
  meaning of the suffix, as integers.\<close>

theorem scan_exact:
  assumes "split_unit s = (base, rest)"
  shows "(\<forall>v. scan_metric s = Some v \<longrightarrow> (\<exists>n k. parse_u64 base = Some n \<and>
      metric_power (to_ascii_lowercase rest) = Some k \<and> unat v = unat n * 1000 ^ k)) \<and>
    (\<forall>v. scan_time s = Some v \<longrightarrow> (\<exists>n f. parse_u64 base = Some n \<and>
      time_factor (to_ascii_lowercase rest) = Some f \<and> unat v = unat n * unat f))"
  using scan_metric_exact [OF _ assms] scan_time_exact [OF _ assms] by blast

theorem scan_exact_witness: "\<exists>n k. parse_u64 ''15'' = Some n \<and>
    metric_power (to_ascii_lowercase ''K'') = Some k \<and> unat (15000 :: u64) = unat n * 1000 ^ k"
proof -
  have "split_unit '' 15K '' = (''15'', ''K'')" "scan_metric '' 15K '' = Some 15000" by code_simp+
  then show ?thesis using scan_exact [of "'' 15K ''" "''15''" "''K''"] by blast
qed

end
