(* ===== verification/Stats_Conc.thy ===== *)
theory Stats_Conc
  imports Stats_Spec
begin

text \<open>
  \<open>Stats::record\<close> called from several threads at once. The histogram is shared by every worker,
  and its fields are relaxed atomics: a read-modify-write acts on the latest value of its location,
  but a plain load, and the load that a failed \<open>compare_exchange_weak\<close> makes, may return any value
  the location has had. So \<open>min\<close> and \<open>max\<close> are the histories of their values, latest first, and a
  thread's program counter is one atomic access.
\<close>

section \<open>The machine\<close>

datatype pc =
    Idle
  | Add_Data u64
  | Add_Count u64
  | Load_Min u64
  | Load_Max u64 u64
  | Cas_Min u64 u64 u64
  | Cas_Max u64 u64

record conc =
  c_limit :: u64
  c_data :: "u64 list"
  c_count :: u64
  c_mins :: "u64 list"
  c_maxs :: "u64 list"
  c_threads :: "(pc \<times> u64 list) list"

text \<open>\<open>Cas_Min n m c\<close> is the first \<open>while n < m\<close> loop with \<open>cur_max = c\<close>, \<open>Cas_Max n m\<close> the second.\<close>

definition after_min :: "u64 \<Rightarrow> u64 \<Rightarrow> pc" where
  "after_min n cur_max = (if cur_max < n then Cas_Max n cur_max else Idle)"

definition after_loads :: "u64 \<Rightarrow> u64 \<Rightarrow> u64 \<Rightarrow> pc" where
  "after_loads n cur_min cur_max =
     (if cur_min \<le> n \<and> n \<le> cur_max then Idle
      else if n < cur_min then Cas_Min n cur_min cur_max
      else after_min n cur_max)"

definition retry_min :: "u64 \<Rightarrow> u64 \<Rightarrow> u64 \<Rightarrow> pc" where
  "retry_min n actual cur_max = (if n < actual then Cas_Min n actual cur_max else after_min n cur_max)"

definition retry_max :: "u64 \<Rightarrow> u64 \<Rightarrow> pc" where
  "retry_max n actual = (if actual < n then Cas_Max n actual else Idle)"

text \<open>One atomic access of one thread: \<open>thread_step s (pc, queue) (pc', queue') s'\<close>, where only the
  shared fields of \<open>s\<close> matter.\<close>

inductive thread_step :: "conc \<Rightarrow> pc \<times> u64 list \<Rightarrow> pc \<times> u64 list \<Rightarrow> conc \<Rightarrow> bool" where
  reject: "c_limit s \<le> n \<Longrightarrow> thread_step s (Idle, n # q) (Idle, q) s"
| enter: "n < c_limit s \<Longrightarrow> thread_step s (Idle, n # q) (Add_Data n, q) s"
| add_data: "unat n < length (c_data s) \<Longrightarrow>
    thread_step s (Add_Data n, q) (Add_Count n, q)
      (s\<lparr>c_data := (c_data s)[unat n := c_data s ! unat n + 1]\<rparr>)"
| add_count: "thread_step s (Add_Count n, q) (Load_Min n, q) (s\<lparr>c_count := c_count s + 1\<rparr>)"
| load_min: "v \<in> set (c_mins s) \<Longrightarrow> thread_step s (Load_Min n, q) (Load_Max n v, q) s"
| load_max: "v \<in> set (c_maxs s) \<Longrightarrow> thread_step s (Load_Max n m, q) (after_loads n m v, q) s"
| cas_min_ok: "c_mins s = m # h \<Longrightarrow>
    thread_step s (Cas_Min n m c, q) (after_min n c, q) (s\<lparr>c_mins := n # m # h\<rparr>)"
| cas_min_fail: "v \<in> set (c_mins s) \<Longrightarrow> thread_step s (Cas_Min n m c, q) (retry_min n v c, q) s"
| cas_max_ok: "c_maxs s = m # h \<Longrightarrow>
    thread_step s (Cas_Max n m, q) (Idle, q) (s\<lparr>c_maxs := n # m # h\<rparr>)"
| cas_max_fail: "v \<in> set (c_maxs s) \<Longrightarrow> thread_step s (Cas_Max n m, q) (retry_max n v, q) s"

inductive conc_step :: "conc \<Rightarrow> conc \<Rightarrow> bool" where
  step: "i < length (c_threads s) \<Longrightarrow> thread_step s (c_threads s ! i) t' s' \<Longrightarrow>
    conc_step s (s'\<lparr>c_threads := (c_threads s)[i := t']\<rparr>)"

definition conc_start :: "stats \<Rightarrow> u64 list list \<Rightarrow> conc" where
  "conc_start s qs = \<lparr>c_limit = st_limit s, c_data = st_data s, c_count = st_count s,
     c_mins = [st_min s], c_maxs = [st_max s], c_threads = map (\<lambda>q. (Idle, q)) qs\<rparr>"

definition conc_done :: "conc \<Rightarrow> bool" where
  "conc_done s \<longleftrightarrow> (\<forall>t \<in> set (c_threads s). t = (Idle, []))"

definition conc_hist :: "conc \<Rightarrow> stats" where
  "conc_hist s = \<lparr>st_count = c_count s, st_limit = c_limit s, st_min = hd (c_mins s),
     st_max = hd (c_maxs s), st_data = c_data s\<rparr>"

inductive_cases thread_stepE: "thread_step s (p, q) t' s'"

section \<open>The invariant\<close>

text \<open>The samples a thread has yet to add to the array, to the count, and to fit into the window.\<close>

fun owes_data :: "u64 \<Rightarrow> pc \<times> u64 list \<Rightarrow> u64 multiset" where
  "owes_data l (Add_Data n, q) = add_mset n (mset (filter (\<lambda>x. x < l) q))"
| "owes_data l (_, q) = mset (filter (\<lambda>x. x < l) q)"

fun owes_count :: "u64 \<Rightarrow> pc \<times> u64 list \<Rightarrow> u64 multiset" where
  "owes_count l (Add_Data n, q) = add_mset n (mset (filter (\<lambda>x. x < l) q))"
| "owes_count l (Add_Count n, q) = add_mset n (mset (filter (\<lambda>x. x < l) q))"
| "owes_count l (_, q) = mset (filter (\<lambda>x. x < l) q)"

fun owes_min :: "pc \<Rightarrow> u64 option" where
  "owes_min (Add_Data n) = Some n"
| "owes_min (Add_Count n) = Some n"
| "owes_min (Load_Min n) = Some n"
| "owes_min (Load_Max n m) = Some n"
| "owes_min (Cas_Min n m c) = Some n"
| "owes_min _ = None"

fun owes_max :: "pc \<Rightarrow> u64 option" where
  "owes_max (Cas_Max n m) = Some n"
| "owes_max p = owes_min p"

text \<open>What a thread remembers it has read, and its sample is one of those to be recorded.\<close>

fun pc_ok :: "conc \<Rightarrow> u64 set \<Rightarrow> pc \<Rightarrow> bool" where
  "pc_ok s A Idle = True"
| "pc_ok s A (Add_Data n) = (n \<in> A)"
| "pc_ok s A (Add_Count n) = (n \<in> A)"
| "pc_ok s A (Load_Min n) = (n \<in> A)"
| "pc_ok s A (Load_Max n m) = (n \<in> A \<and> m \<in> set (c_mins s))"
| "pc_ok s A (Cas_Min n m c) = (n \<in> A \<and> n < m \<and> c \<in> set (c_maxs s))"
| "pc_ok s A (Cas_Max n m) = (n \<in> A \<and> m < n)"

definition thread_ok :: "conc \<Rightarrow> u64 set \<Rightarrow> pc \<times> u64 list \<Rightarrow> bool" where
  "thread_ok s A t \<longleftrightarrow> pc_ok s A (fst t) \<and> (\<forall>n \<in> set (snd t). n < c_limit s \<longrightarrow> n \<in> A)"

definition fits :: "conc \<Rightarrow> u64 \<Rightarrow> bool" where
  "fits s n \<longleftrightarrow> (hd (c_mins s) \<le> n \<or> (\<exists>t \<in> set (c_threads s). owes_min (fst t) = Some n \<or> n \<in> set (snd t)))
     \<and> (n \<le> hd (c_maxs s) \<or> (\<exists>t \<in> set (c_threads s). owes_max (fst t) = Some n \<or> n \<in> set (snd t)))"

definition windows_ok :: "conc \<Rightarrow> u64 set \<Rightarrow> bool" where
  "windows_ok s A \<longleftrightarrow> c_mins s \<noteq> [] \<and> c_maxs s \<noteq> []
     \<and> (\<forall>v \<in> set (c_mins s). hd (c_mins s) \<le> v \<and> v \<in> insert u64_max A)
     \<and> (\<forall>v \<in> set (c_maxs s). v \<le> hd (c_maxs s) \<and> v \<in> insert 0 A)"

definition data_ok :: "conc \<Rightarrow> u64 multiset \<Rightarrow> bool" where
  "data_ok s M \<longleftrightarrow> length (c_data s) = unat (c_limit s) \<and>
     (\<forall>i < c_limit s. of_nat (count M i)
        = c_data s ! unat i + of_nat (count (\<Sum>t\<leftarrow>c_threads s. owes_data (c_limit s) t) i)) \<and>
     of_nat (size M) = c_count s + of_nat (size (\<Sum>t\<leftarrow>c_threads s. owes_count (c_limit s) t))"

definition conc_inv :: "conc \<Rightarrow> u64 multiset \<Rightarrow> bool" where
  "conc_inv s M \<longleftrightarrow> 0 < c_limit s \<and> unat (c_limit s) < 2 ^ 60 \<and> (\<forall>n \<in># M. n < c_limit s) \<and> data_ok s M \<and> windows_ok s (set_mset M)
     \<and> (\<forall>t \<in> set (c_threads s). thread_ok s (set_mset M) t) \<and> (\<forall>n \<in># M. fits s n)"

section \<open>The invariant is preserved\<close>

lemma thread_step_frame:
  "thread_step s t t' s' \<Longrightarrow> c_limit s' = c_limit s \<and> c_threads s' = c_threads s
    \<and> length (c_data s') = length (c_data s)
    \<and> set (c_mins s) \<subseteq> set (c_mins s') \<and> set (c_maxs s) \<subseteq> set (c_maxs s')"
  by (induction rule: thread_step.induct) auto

lemmas after_defs = after_min_def after_loads_def retry_min_def retry_max_def

lemma step_thread_ok:
  "thread_step s t t' s' \<Longrightarrow> thread_ok s A t \<Longrightarrow> thread_ok s' A t'"
  by (induction rule: thread_step.induct) (auto simp: thread_ok_def after_defs)

lemma other_thread_ok:
  assumes "thread_step s t t' s'" "thread_ok s A u"
  shows "thread_ok s' A u"
  using assms(2) thread_step_frame [OF assms(1)] by (cases u; cases "fst u") (auto simp: thread_ok_def)

lemma step_windows_ok:
  "thread_step s t t' s' \<Longrightarrow> thread_ok s A t \<Longrightarrow> windows_ok s A \<Longrightarrow> windows_ok s' A"
  by (induction rule: thread_step.induct) (auto simp: thread_ok_def windows_ok_def)

lemma step_heads:
  "thread_step s t t' s' \<Longrightarrow> thread_ok s A t \<Longrightarrow> windows_ok s A \<Longrightarrow>
    hd (c_mins s') \<le> hd (c_mins s) \<and> hd (c_maxs s) \<le> hd (c_maxs s')"
  by (induction rule: thread_step.induct) (auto simp: thread_ok_def windows_ok_def)

lemma step_owes_min:
  "thread_step s t t' s' \<Longrightarrow> thread_ok s A t \<Longrightarrow> windows_ok s A \<Longrightarrow> n < c_limit s \<Longrightarrow>
    owes_min (fst t) = Some n \<or> n \<in> set (snd t) \<Longrightarrow>
    hd (c_mins s') \<le> n \<or> owes_min (fst t') = Some n \<or> n \<in> set (snd t')"
  by (induction rule: thread_step.induct)
     (auto simp: thread_ok_def windows_ok_def after_defs not_less intro: order.trans)

lemma step_owes_max:
  "thread_step s t t' s' \<Longrightarrow> thread_ok s A t \<Longrightarrow> windows_ok s A \<Longrightarrow> n < c_limit s \<Longrightarrow>
    owes_max (fst t) = Some n \<or> n \<in> set (snd t) \<Longrightarrow>
    n \<le> hd (c_maxs s') \<or> owes_max (fst t') = Some n \<or> n \<in> set (snd t')"
  by (induction rule: thread_step.induct)
     (auto simp: thread_ok_def windows_ok_def after_defs not_less intro: order.trans)

lemma step_data:
  assumes "thread_step s t t' s'" "length (c_data s) = unat (c_limit s)"
    and "i < c_limit s"
  shows "c_data s' ! unat i + of_nat (count (owes_data (c_limit s) t') i)
    = c_data s ! unat i + of_nat (count (owes_data (c_limit s) t) i)"
  using assms
proof (induction rule: thread_step.induct)
  case (add_data n s q)
  then have "unat i < length (c_data s)" by (simp add: word_less_nat_alt)
  moreover have "i \<noteq> n \<Longrightarrow> unat n \<noteq> unat i" by (simp add: word_unat_eq_iff)
  ultimately show ?case by (cases "i = n") (simp_all add: add.assoc)
qed (auto simp: after_defs)

lemma step_count:
  "thread_step s t t' s' \<Longrightarrow> c_count s' + of_nat (size (owes_count (c_limit s) t'))
    = c_count s + of_nat (size (owes_count (c_limit s) t))"
  by (induction rule: thread_step.induct) (auto simp: after_defs simp del: mset_filter)

lemma count_sum_list: "count (\<Sum>x\<leftarrow>xs. f x) i = (\<Sum>x\<leftarrow>xs. count (f x) i)"
  by (induction xs) simp_all

lemma step_data_ok:
  assumes "i < length (c_threads s)" "thread_step s (c_threads s ! i) t' s'" "data_ok s M"
  shows "data_ok (s'\<lparr>c_threads := (c_threads s)[i := t']\<rparr>) M"
proof -
  let ?l = "c_limit s" and ?T = "c_threads s"
  note frame = thread_step_frame [OF assms(2)]
  have len: "length (c_data s) = unat ?l" using assms(3) by (simp add: data_ok_def)
  have "of_nat (count M k) = c_data s' ! unat k + of_nat (count (\<Sum>t\<leftarrow>?T[i := t']. owes_data ?l t) k)"
    if "k < ?l" for k
  proof -
    let ?S = "\<lambda>ts. of_nat (count (\<Sum>t\<leftarrow>ts. owes_data ?l t) k) :: u64"
    have "?S (?T[i := t']) + of_nat (count (owes_data ?l (?T ! i)) k) = ?S ?T + of_nat (count (owes_data ?l t') k)"
      using arg_cong [OF sum_list_swap [OF assms(1), of "owes_data ?l" t'], of "\<lambda>X. of_nat (count X k) :: u64"]
      by simp
    moreover have "of_nat (count M k) = c_data s ! unat k + ?S ?T"
      using assms(3) that by (simp add: data_ok_def)
    ultimately show ?thesis using swap_total [OF step_data [OF assms(2) len that]] by (simp only:)
  qed
  moreover have "of_nat (size M) = c_count s' + of_nat (size (\<Sum>t\<leftarrow>?T[i := t']. owes_count ?l t))"
  proof -
    let ?S = "\<lambda>ts. of_nat (size (\<Sum>t\<leftarrow>ts. owes_count ?l t)) :: u64"
    have "?S (?T[i := t']) + of_nat (size (owes_count ?l (?T ! i))) = ?S ?T + of_nat (size (owes_count ?l t'))"
      using arg_cong [OF sum_list_swap [OF assms(1), of "owes_count ?l" t'], of "\<lambda>X. of_nat (size X) :: u64"]
      by simp
    moreover have "of_nat (size M) = c_count s + ?S ?T" using assms(3) by (simp add: data_ok_def)
    ultimately show ?thesis using swap_total [OF step_count [OF assms(2)]] by (simp only:)
  qed
  ultimately show ?thesis using len frame by (simp add: data_ok_def)
qed

lemma bex_update:
  assumes "\<exists>u \<in> set xs. P u" "i < length xs" "P (xs ! i) \<Longrightarrow> P y"
  shows "\<exists>u \<in> set (xs[i := y]). P u"
proof -
  obtain k where k: "k < length xs" "P (xs ! k)" using assms(1) by (auto simp: in_set_conv_nth)
  then have "P (xs[i := y] ! k)" using assms(2,3) by (cases "k = i") simp_all
  then show ?thesis using k(1) by (intro bexI [of _ "xs[i := y] ! k"]) simp_all
qed

lemma step_fits:
  assumes "i < length (c_threads s)" "thread_step s (c_threads s ! i) t' s'"
    and "thread_ok s A (c_threads s ! i)" "windows_ok s A" "n < c_limit s" "fits s n"
  shows "fits (s'\<lparr>c_threads := (c_threads s)[i := t']\<rparr>) n"
proof -
  let ?T = "c_threads s" and ?T' = "(c_threads s)[i := t']"
  note heads = step_heads [OF assms(2-4)]
  note ex = bex_update [OF _ assms(1), of _ t']
  have "hd (c_mins s') \<le> n \<or> (\<exists>t \<in> set ?T'. owes_min (fst t) = Some n \<or> n \<in> set (snd t))"
    using assms(6) heads step_owes_min [OF assms(2-5)]
      ex [of "\<lambda>t. owes_min (fst t) = Some n \<or> n \<in> set (snd t)"] unfolding fits_def
    by (cases "hd (c_mins s') \<le> n") (auto dest: order.trans)
  moreover have "n \<le> hd (c_maxs s') \<or> (\<exists>t \<in> set ?T'. owes_max (fst t) = Some n \<or> n \<in> set (snd t))"
    using assms(6) heads step_owes_max [OF assms(2-5)]
      ex [of "\<lambda>t. owes_max (fst t) = Some n \<or> n \<in> set (snd t)"] unfolding fits_def
    by (cases "n \<le> hd (c_maxs s')") (auto dest: order.trans)
  ultimately show ?thesis by (simp add: fits_def)
qed

lemma conc_step_inv: "conc_step s s' \<Longrightarrow> conc_inv s M \<Longrightarrow> conc_inv s' M"
proof (induction rule: conc_step.induct)
  case (step i s t' s')
  let ?A = "set_mset M" and ?s = "s'\<lparr>c_threads := (c_threads s)[i := t']\<rparr>"
  note frame = thread_step_frame [OF step(2)]
  have ok: "thread_ok s ?A (c_threads s ! i)" and win: "windows_ok s ?A"
    using step by (auto simp: conc_inv_def)
  have same: "thread_ok ?s ?A u = thread_ok s' ?A u" for u
    by (cases u; cases "fst u") (auto simp: thread_ok_def)
  have "thread_ok ?s ?A u" if "u \<in> set ((c_threads s)[i := t'])" for u
  proof -
    have "u = t' \<or> u \<in> set (c_threads s)" using that set_update_subset_insert by fast
    then have "thread_ok s' ?A u"
      using step_thread_ok [OF step(2) ok] other_thread_ok [OF step(2), of ?A u] step(3)
      by (auto simp: conc_inv_def)
    then show ?thesis unfolding same .
  qed
  moreover have "windows_ok ?s ?A" using step_windows_ok [OF step(2) ok win] by (simp add: windows_ok_def)
  moreover have "data_ok ?s M" using step by (intro step_data_ok) (simp_all add: conc_inv_def)
  moreover have "fits ?s n" if "n \<in># M" for n
    using step that ok win by (intro step_fits [OF step(1,2)]) (auto simp: conc_inv_def)
  ultimately show ?case using step(3) frame by (simp add: conc_inv_def)
qed

lemma conc_steps_inv: "conc_step\<^sup>*\<^sup>* s s' \<Longrightarrow> conc_inv s M \<Longrightarrow> conc_inv s' M"
  by (induction rule: rtranclp_induct) (auto intro: conc_step_inv)

section \<open>The first and the last state\<close>

lemma min_of_in: "min_of M \<in> insert u64_max (set_mset M)"
  using Min_in [of "set_mset M"] by (auto simp: min_of_def)

lemma max_of_in: "max_of M \<in> insert 0 (set_mset M)"
  using Max_in [of "set_mset M"] by (auto simp: max_of_def)

lemma min_of_le: "n \<in># M \<Longrightarrow> min_of M \<le> n"
  by (auto simp: min_of_def)

lemma max_of_ge: "n \<in># M \<Longrightarrow> n \<le> max_of M"
  by (auto simp: max_of_def)

lemma owes_start: "(\<Sum>q\<leftarrow>qs. mset (filter P q)) = mset (filter P (concat qs))"
  by (induction qs) simp_all

lemma conc_start_inv:
  assumes "represents s M"
  shows "conc_inv (conc_start s qs) (M + mset (filter (\<lambda>x. x < st_limit s) (concat qs)))"
proof -
  let ?P = "mset (filter (\<lambda>x. x < st_limit s) (concat qs))"
  have safe: "stats_safe s" and mm: "st_min s = min_of M" "st_max s = max_of M"
    using assms by (simp_all add: represents_def)
  have "0 < st_limit s"
    using safe by (metis order.strict_trans1 stats_safe_def word_zero_le)
  moreover have "data_ok (conc_start s qs) (M + ?P)"
    using assms stats_safeD(1) [OF safe] unfolding data_ok_def conc_start_def
    by (simp add: comp_def owes_start represents_def del: mset_filter)
  moreover have "windows_ok (conc_start s qs) (set_mset (M + ?P))"
    using min_of_in [of M] max_of_in [of M] by (auto simp: windows_ok_def conc_start_def mm)
  moreover have "fits (conc_start s qs) n" if "n \<in># M + ?P" for n
    using that min_of_le [of n M] max_of_ge [of n M] by (force simp: fits_def conc_start_def mm)
  ultimately show ?thesis
    using assms safe by (auto simp: conc_inv_def conc_start_def thread_ok_def represents_def stats_safe_def)
qed

lemma owes_done:
  assumes "conc_done s"
  shows "(\<Sum>t\<leftarrow>c_threads s. owes_data l t) = {#}" "(\<Sum>t\<leftarrow>c_threads s. owes_count l t) = {#}"
proof -
  have zero: "(\<Sum>t\<leftarrow>ts. f t) = {#}" if "\<forall>t \<in> set ts. f t = {#}" for f :: "pc \<times> u64 list \<Rightarrow> u64 multiset" and ts
    using that by (induction ts) simp_all
  show "(\<Sum>t\<leftarrow>c_threads s. owes_data l t) = {#}" "(\<Sum>t\<leftarrow>c_threads s. owes_count l t) = {#}"
    using assms by (auto simp: conc_done_def intro!: zero)
qed

lemma conc_done_represents:
  assumes "conc_inv s M" "conc_done s"
  shows "represents (conc_hist s) M"
proof -
  have win: "windows_ok s (set_mset M)" and lim: "0 < c_limit s" "unat (c_limit s) < 2 ^ 60"
    "\<forall>n \<in># M. n < c_limit s" using assms(1) by (simp_all add: conc_inv_def)
  have fit: "hd (c_mins s) \<le> n" "n \<le> hd (c_maxs s)" if "n \<in># M" for n
  proof -
    have "fits s n" using assms(1) that by (simp add: conc_inv_def)
    then show "hd (c_mins s) \<le> n" "n \<le> hd (c_maxs s)"
      using assms(2) by (auto simp: fits_def conc_done_def)
  qed
  have "hd (c_mins s) \<in> insert u64_max (set_mset M)" "hd (c_maxs s) \<in> insert 0 (set_mset M)"
    using win hd_in_set by (auto simp: windows_ok_def)
  then have "hd (c_mins s) = min_of M" "hd (c_maxs s) = max_of M"
    using fit min_of_in [of M] max_of_in [of M] min_of_le [of _ M] max_of_ge [of _ M]
      le_u64_max word_zero_le by (metis insert_iff order.antisym)+
  moreover have "hd (c_maxs s) < c_limit s"
    using \<open>hd (c_maxs s) \<in> insert 0 (set_mset M)\<close> lim by auto
  ultimately show ?thesis
    using assms(1) lim owes_done [OF assms(2)]
    by (simp add: represents_def stats_safe_def conc_hist_def conc_inv_def data_ok_def)
qed

lemma represents_unique:
  assumes "represents s M" "represents s' M" "st_limit s = st_limit s'"
  shows "s = s'"
proof -
  have len: "length (st_data s) = unat (st_limit s)" "length (st_data s') = unat (st_limit s)"
    using assms by (simp_all add: represents_def stats_safe_def)
  have "st_data s = st_data s'"
  proof (intro nth_equalityI)
    fix k assume "k < length (st_data s)"
    then have k: "k < unat (st_limit s)" using len by simp
    then have "unat (word_of_nat k :: u64) = k" by (rule unat_of_nat_below)
    moreover have "word_of_nat k < st_limit s" using k calculation by (simp add: word_less_nat_alt)
    ultimately show "st_data s ! k = st_data s' ! k"
      using assms unfolding represents_def by metis
  qed (simp add: len)
  then show ?thesis using assms by (simp add: represents_def)
qed

section \<open>Progress\<close>

text \<open>
  A spuriously failing \<open>compare_exchange_weak\<close> may be retried without end, so not every schedule
  finishes. But no reachable state is stuck, and from each of them every thread can be run to its
  end: \<open>weight\<close> bounds the accesses of a thread that runs alone and whose exchanges do not fail
  spuriously.
\<close>

fun weight :: "conc \<Rightarrow> pc \<Rightarrow> nat" where
  "weight s Idle = 0"
| "weight s (Cas_Max n m) = (if m = hd (c_maxs s) then 1 else 2)"
| "weight s (Cas_Min n m c) = (if m = hd (c_mins s) then 3 else 4)"
| "weight s (Load_Max n m) = 5"
| "weight s (Load_Min n) = 6"
| "weight s (Add_Count n) = 7"
| "weight s (Add_Data n) = 8"

definition weight_of :: "conc \<Rightarrow> pc \<times> u64 list \<Rightarrow> nat" where
  "weight_of s t = weight s (fst t) + 9 * length (snd t)"

lemma weight_after_min: "weight s (after_min n c) \<le> 2" "weight s (after_loads n m c) \<le> 4"
  by (auto simp: after_defs)

lemma idle_progress:
  assumes "q \<noteq> []"
  shows "\<exists>t' s'. thread_step s (Idle, q) t' s' \<and> weight_of s' t' < weight_of s (Idle, q)"
proof -
  obtain n q' where q: "q = n # q'" using assms by (cases q) auto
  show ?thesis
  proof (cases "c_limit s \<le> n")
    case True
    from reject [OF this] show ?thesis unfolding q by (fastforce simp: weight_of_def)
  next
    case False
    then have "thread_step s (Idle, q) (Add_Data n, q') s" unfolding q by (intro enter) simp
    then show ?thesis unfolding q by (fastforce simp: weight_of_def)
  qed
qed

lemma cas_min_progress:
  assumes "c_mins s = mn # h"
  shows "\<exists>t' s'. thread_step s (Cas_Min n m c, q) t' s' \<and> weight_of s' t' < weight_of s (Cas_Min n m c, q)"
proof -
  have le: "weight s' (after_min n c) < 3" for s' using weight_after_min(1) [of s' n c] by simp
  show ?thesis
  proof (cases "m = mn")
    case True
    have "thread_step s (Cas_Min n m c, q) (after_min n c, q) (s\<lparr>c_mins := n # m # h\<rparr>)"
      by (rule cas_min_ok) (simp add: assms True)
    with True le show ?thesis by (intro exI conjI) (auto simp: assms weight_of_def)
  next
    case False
    then have "weight s (retry_min n mn c) < 4" using le [of s] by (simp add: retry_min_def assms)
    moreover have "thread_step s (Cas_Min n m c, q) (retry_min n mn c, q) s"
      by (rule cas_min_fail) (simp add: assms)
    ultimately show ?thesis using False by (intro exI conjI) (auto simp: assms weight_of_def)
  qed
qed

lemma cas_max_progress:
  assumes "c_maxs s = mx # g"
  shows "\<exists>t' s'. thread_step s (Cas_Max n m, q) t' s' \<and> weight_of s' t' < weight_of s (Cas_Max n m, q)"
proof (cases "m = mx")
  case True
  have "thread_step s (Cas_Max n m, q) (Idle, q) (s\<lparr>c_maxs := n # m # g\<rparr>)"
    by (rule cas_max_ok) (simp add: assms True)
  with True show ?thesis by (intro exI conjI) (auto simp: assms weight_of_def)
next
  case False
  then have "weight s (retry_max n mx) < 2" by (simp add: retry_max_def assms)
  moreover have "thread_step s (Cas_Max n m, q) (retry_max n mx, q) s"
    by (rule cas_max_fail) (simp add: assms)
  ultimately show ?thesis using False by (intro exI conjI) (auto simp: assms weight_of_def)
qed

lemma thread_progress:
  assumes "windows_ok s A" "thread_ok s A t" "\<forall>n \<in> A. unat n < length (c_data s)" "t \<noteq> (Idle, [])"
  shows "\<exists>t' s'. thread_step s t t' s' \<and> weight_of s' t' < weight_of s t"
proof -
  obtain p q where t: "t = (p, q)" by (cases t)
  obtain mn h where mins: "c_mins s = mn # h" using assms(1) by (cases "c_mins s") (auto simp: windows_ok_def)
  obtain mx g where maxs: "c_maxs s = mx # g" using assms(1) by (cases "c_maxs s") (auto simp: windows_ok_def)
  show ?thesis
  proof (cases p)
    case Idle
    then show ?thesis using idle_progress assms(4) unfolding t by auto
  next
    case (Add_Data n)
    then have "unat n < length (c_data s)" using assms(2,3) t by (simp add: thread_ok_def)
    from add_data [OF this] show ?thesis unfolding t Add_Data by (fastforce simp: weight_of_def)
  next
    case (Add_Count n)
    show ?thesis unfolding t Add_Count by (intro exI conjI, rule add_count) (simp add: weight_of_def)
  next
    case (Load_Min n)
    show ?thesis unfolding t Load_Min
      by (intro exI conjI, rule load_min [of mn]) (simp_all add: mins weight_of_def)
  next
    case (Load_Max n m)
    have "weight s (after_loads n m mx) < 5" using weight_after_min(2) [of s n m mx] by simp
    moreover have "thread_step s (Load_Max n m, q) (after_loads n m mx, q) s"
      by (rule load_max) (simp add: maxs)
    ultimately show ?thesis unfolding t Load_Max by (intro exI conjI) (auto simp: weight_of_def)
  qed (use t cas_min_progress [OF mins] cas_max_progress [OF maxs] in blast)+
qed

lemma thread_finishes:
  assumes "conc_inv s M" "i < length (c_threads s)"
  shows "\<exists>s'. conc_step\<^sup>*\<^sup>* s s' \<and> c_threads s' = (c_threads s)[i := (Idle, [])]"
  using assms
proof (induction "weight_of s (c_threads s ! i)" arbitrary: s rule: less_induct)
  case less
  let ?t = "c_threads s ! i"
  show ?case
  proof (cases "?t = (Idle, [])")
    case True
    then show ?thesis by (metis list_update_id rtranclp.rtrancl_refl)
  next
    case False
    have len: "length (c_data s) = unat (c_limit s)" and "\<forall>n \<in># M. n < c_limit s"
      using less.prems(1) by (simp_all add: conc_inv_def data_ok_def)
    then have "\<forall>n \<in> set_mset M. unat n < length (c_data s)" by (simp add: word_less_nat_alt)
    moreover have "windows_ok s (set_mset M)" "thread_ok s (set_mset M) ?t"
      using less.prems by (simp_all add: conc_inv_def)
    ultimately obtain t' s1 where next': "thread_step s ?t t' s1" "weight_of s1 t' < weight_of s ?t"
      using thread_progress False by blast
    let ?s1 = "s1\<lparr>c_threads := (c_threads s)[i := t']\<rparr>"
    have st: "conc_step s ?s1" by (rule step [OF less.prems(2) next'(1)])
    have "weight ?s1 p = weight s1 p" for p by (cases p) simp_all
    then have "weight_of ?s1 (c_threads ?s1 ! i) < weight_of s ?t"
      using next'(2) less.prems(2) by (simp add: weight_of_def)
    moreover have "conc_inv ?s1 M" by (rule conc_step_inv [OF st less.prems(1)])
    ultimately obtain s' where "conc_step\<^sup>*\<^sup>* ?s1 s'" "c_threads s' = (c_threads ?s1)[i := (Idle, [])]"
      using less.hyps [of ?s1] less.prems(2) by auto
    with st show ?thesis by (intro exI [of _ s']) (auto intro: converse_rtranclp_into_rtranclp)
  qed
qed

lemma conc_finishes:
  assumes "conc_inv s M"
  shows "\<exists>s'. conc_step\<^sup>*\<^sup>* s s' \<and> conc_done s'"
proof -
  have "\<exists>s'. conc_step\<^sup>*\<^sup>* s s' \<and> length (c_threads s') = length (c_threads s)
      \<and> (\<forall>i < k. c_threads s' ! i = (Idle, []))" if "k \<le> length (c_threads s)" for k
    using that
  proof (induction k)
    case (Suc k)
    then obtain s1 where s1: "conc_step\<^sup>*\<^sup>* s s1" "length (c_threads s1) = length (c_threads s)"
      "\<forall>i < k. c_threads s1 ! i = (Idle, [])" by auto
    then obtain s2 where "conc_step\<^sup>*\<^sup>* s1 s2" "c_threads s2 = (c_threads s1)[k := (Idle, [])]"
      using thread_finishes [OF conc_steps_inv [OF s1(1) assms], of k] Suc.prems by auto
    with s1 Suc.prems show ?case
      by (intro exI [of _ s2]) (auto simp: less_Suc_eq nth_list_update)
  qed auto
  from this [of "length (c_threads s)"] obtain s' where "conc_step\<^sup>*\<^sup>* s s'"
    "length (c_threads s') = length (c_threads s)"
    "\<forall>i < length (c_threads s). c_threads s' ! i = (Idle, [])" by auto
  then show ?thesis by (intro exI [of _ s']) (auto simp: conc_done_def in_set_conv_nth)
qed

end
