(* ===== verification/Stats_Conc_Props.thy ===== *)
theory Stats_Conc_Props
  imports Stats_Conc
begin

text \<open>The properties of the concurrent histogram.\<close>

lemma conc_run_represents:
  assumes "stats_alloc mx = Some s" "conc_step\<^sup>*\<^sup>* (conc_start s qs) c"
  shows "conc_inv c (mset (filter (\<lambda>n. n \<le> mx) (concat qs)))"
proof -
  have s: "represents s {#}" "unat (st_limit s) = unat mx + 1" using represents_alloc [OF assms(1)] by auto
  have "(\<lambda>n. n < st_limit s) = (\<lambda>n. n \<le> mx)" using s(2) by (auto simp: word_less_nat_alt word_le_nat_alt)
  then show ?thesis using conc_steps_inv [OF assms(2) conc_start_inv [OF s(1)]] by simp
qed

lemma conc_limit: "conc_step\<^sup>*\<^sup>* c c' \<Longrightarrow> c_limit c' = c_limit c"
  by (induction rule: rtranclp_induct) (auto simp: thread_step_frame elim!: conc_step.cases)

text \<open>C3: concurrent recording. However the atomic accesses of the threads interleave, whichever past
  value a relaxed load returns and however often a weak exchange fails spuriously, when all threads
  are done the histogram is the one a single thread gets by recording all samples in any order: no
  sample is lost or counted twice, and \<open>min\<close> and \<open>max\<close> are exact.\<close>

theorem stats_concurrent_record:
  assumes "stats_alloc mx = Some s" "conc_step\<^sup>*\<^sup>* (conc_start s qs) c" "conc_done c"
    and "mset ns = mset (concat qs)"
  shows "record_all ns s = Some (conc_hist c)"
proof -
  have c: "represents (conc_hist c) (mset (filter (\<lambda>n. n \<le> mx) (concat qs)))"
    by (rule conc_done_represents [OF conc_run_represents [OF assms(1,2)] assms(3)])
  obtain s' where s': "record_all ns s = Some s'" "represents s' (mset (filter (\<lambda>n. n \<le> mx) ns))"
    "st_limit s' = st_limit s" using record_all_represents [OF assms(1)] by blast
  have "mset (filter (\<lambda>n. n \<le> mx) ns) = mset (filter (\<lambda>n. n \<le> mx) (concat qs))"
    using assms(4) by simp
  moreover have "st_limit (conc_hist c) = st_limit s"
    using conc_limit [OF assms(2)] by (simp add: conc_hist_def conc_start_def)
  ultimately have "s' = conc_hist c" using represents_unique [OF s'(2)] c s'(3) by simp
  then show ?thesis using s'(1) by simp
qed

theorem stats_concurrent_record_witness:
  "\<exists>c. conc_step\<^sup>*\<^sup>* (conc_start (the (stats_alloc 10)) [[3, 99], [7, 3]]) c \<and> conc_done c
    \<and> record_all [7, 3, 3, 99] (the (stats_alloc 10)) = Some (conc_hist c)"
proof -
  have s: "stats_alloc 10 = Some (the (stats_alloc 10))" by code_simp
  from conc_finishes [OF conc_run_represents [OF s rtranclp.rtrancl_refl]]
  obtain c where c: "conc_step\<^sup>*\<^sup>* (conc_start (the (stats_alloc 10)) [[3, 99], [7, 3]]) c" "conc_done c" by blast
  from stats_concurrent_record [OF s this, of "[7, 3, 3, 99]"] c show ?thesis by auto
qed

text \<open>C22: no deadlock, and recording can always be completed: from every state a run of the threads can
  reach there is a continuation in which all of them finish.\<close>

theorem stats_concurrent_progress:
  assumes "stats_alloc mx = Some s" "conc_step\<^sup>*\<^sup>* (conc_start s qs) c"
  shows "(conc_done c \<or> (\<exists>c'. conc_step c c')) \<and> (\<exists>c'. conc_step\<^sup>*\<^sup>* c c' \<and> conc_done c')"
  using conc_finishes [OF conc_run_represents [OF assms]] by (metis converse_rtranclpE)

theorem stats_concurrent_progress_witness:
  "\<exists>c'. conc_step\<^sup>*\<^sup>* (conc_start (the (stats_alloc 10)) [[3], [7]]) c' \<and> conc_done c'"
proof -
  have s: "stats_alloc 10 = Some (the (stats_alloc 10))" by code_simp
  from stats_concurrent_progress [OF s rtranclp.rtrancl_refl] show ?thesis by blast
qed

end
