(* ===== verification/Config.thy ===== *)
theory Config
  imports Units
begin

text \<open>
  The component \<open>src/config.rs\<close>: the command line and the target URL. \<open>Cli::try_parse\<close> is code
  that \<open>clap\<close> generates, so the record it returns (or its failure) is an argument of
  \<open>parse_args\<close>; the value parsers it calls (\<open>MetricArg\<close>, \<open>TimeArg\<close>, \<open>HeaderArg\<close>) are
  defined here. Leaving through \<open>exit\<close> is the outcome \<open>Exit\<close> with the exit code and what was
  printed to the standard output and to the standard error.
\<close>

section \<open>Data\<close>

datatype scheme = Http | Https

datatype http_version = Http1 | Http2 | Http3 | Auto

datatype resolved_version = Res_Http1 | Res_Http2 | Res_Http3

fun as_str :: "resolved_version \<Rightarrow> string" where
  "as_str Res_Http1 = ''HTTP/1.1''"
| "as_str Res_Http2 = ''HTTP/2''"
| "as_str Res_Http3 = ''HTTP/3''"

record config =
  cfg_threads :: u64
  cfg_connections :: u64
  cfg_duration :: u64
  cfg_timeout :: u64
  cfg_latency :: bool
  cfg_insecure :: bool
  cfg_method :: string
  cfg_path :: string
  cfg_body :: string
  cfg_headers :: "(string \<times> string) list"
  cfg_scheme :: scheme
  cfg_host :: string
  cfg_port :: u16
  cfg_url :: string
  cfg_http_version :: http_version
  cfg_streams_per_conn :: u64
  cfg_resolved :: "resolved_version option"

definition DEFAULT_THREADS :: u64 where "DEFAULT_THREADS = 2"
definition DEFAULT_CONNECTIONS :: u64 where "DEFAULT_CONNECTIONS = 10"
definition DEFAULT_DURATION_SECS :: u64 where "DEFAULT_DURATION_SECS = 10"
definition SOCKET_TIMEOUT_MS :: u64 where "SOCKET_TIMEOUT_MS = 2000"

fun default_port_for :: "scheme \<Rightarrow> u16" where
  "default_port_for Http = 80"
| "default_port_for Https = 443"

definition default_port :: "config \<Rightarrow> u16" where
  "default_port c = (case cfg_scheme c of Http \<Rightarrow> 80 | Https \<Rightarrow> 443)"

definition host_header :: "config \<Rightarrow> string" where
  "host_header c =
     (if cfg_port c = default_port c then cfg_host c
      else cfg_host c @ '':'' @ show_u16 (cfg_port c))"

section \<open>Value parsers\<close>

definition metric_arg :: "string \<Rightarrow> string + u64" where
  "metric_arg s = (case scan_metric s of
     None \<Rightarrow> Inl (''invalid SI value: '' @ quoted s @ '' (expected e.g. 1, 1k, 1M, 1G)'')
   | Some v \<Rightarrow> Inr v)"

definition time_arg :: "string \<Rightarrow> string + u64" where
  "time_arg s = (case scan_time s of
     None \<Rightarrow> Inl (''invalid time value: '' @ quoted s @ '' (expected e.g. 2s, 2m, 2h)'')
   | Some v \<Rightarrow> Inr v)"

definition header_arg :: "string \<Rightarrow> string + (string \<times> string)" where
  "header_arg s = (case split_once '':'' s of
     Some (k, v) \<Rightarrow> Inr (trim k, trim v)
   | None \<Rightarrow> Inl (''invalid header: '' @ quoted s @ '' (expected '' @ quoted ''Name: Value'' @ '')''))"

datatype method_arg = Get | Post | Put | Patch | Delete | Head | Options

fun method_as_str :: "method_arg \<Rightarrow> string" where
  "method_as_str Get = ''GET''"
| "method_as_str Post = ''POST''"
| "method_as_str Put = ''PUT''"
| "method_as_str Patch = ''PATCH''"
| "method_as_str Delete = ''DELETE''"
| "method_as_str Head = ''HEAD''"
| "method_as_str Options = ''OPTIONS''"

datatype version_arg = Arg_Auto | Arg_Http1 | Arg_Http2 | Arg_Http3

fun to_http_version :: "version_arg \<Rightarrow> http_version" where
  "to_http_version Arg_Auto = Auto"
| "to_http_version Arg_Http1 = Http1"
| "to_http_version Arg_Http2 = Http2"
| "to_http_version Arg_Http3 = Http3"

text \<open>The struct \<open>Cli\<close>, as \<open>clap\<close> fills it.\<close>

record cli =
  cli_connections :: "u64 option"
  cli_duration :: "u64 option"
  cli_threads :: "u64 option"
  cli_header :: "(string \<times> string) list"
  cli_latency :: bool
  cli_insecure :: bool
  cli_timeout :: "u64 option"
  cli_method :: method_arg
  cli_path :: string
  cli_body :: "string option"
  cli_http_version :: version_arg
  cli_http2 :: bool
  cli_http3 :: bool
  cli_streams_per_conn :: u64
  cli_version :: bool
  cli_help :: bool
  cli_url :: "string option"

section \<open>The URL\<close>

text \<open>The part of an authority after its last colon is a port when it is a run of digits.\<close>

definition split_authority :: "scheme \<Rightarrow> string \<Rightarrow> string + (string \<times> u16)" where
  "split_authority sch authority = (case rfind_char CHR '':'' authority of
     Some idx \<Rightarrow>
       (let possible_port = drop (idx + 1) authority in
        if list_all is_digit possible_port \<and> possible_port \<noteq> [] then
          (case parse_u16 possible_port of
             None \<Rightarrow> Inl ''invalid port''
           | Some p \<Rightarrow> Inr (take idx authority, p))
        else Inr (authority, default_port_for sch))
   | None \<Rightarrow> Inr (authority, default_port_for sch))"

definition parse_url :: "string \<Rightarrow> string + (scheme \<times> string \<times> u16)" where
  "parse_url url = (case split_once ''://'' url of
     None \<Rightarrow> Inl ''missing scheme''
   | Some (scheme_str, rest) \<Rightarrow>
       (let lower = to_ascii_lowercase scheme_str in
        case (if lower = ''http'' then Inr Http
              else if lower = ''https'' then Inr Https
              else Inl (''unsupported scheme: '' @ lower)) of
          Inl e \<Rightarrow> Inl e
        | Inr sch \<Rightarrow>
            (let auth_end = (case find_char ''/?#'' rest of Some i \<Rightarrow> i | None \<Rightarrow> length rest) in
             case split_authority sch (take auth_end rest) of
               Inl e \<Rightarrow> Inl e
             | Inr (host, port) \<Rightarrow>
                 if host = [] then Inl ''missing host'' else Inr (sch, host, port))))"

section \<open>The entry point\<close>

datatype 'a outcome = Exit int string string | Done 'a

definition usage_text :: string where
  "usage_text = concat (map println [
      ''Usage: wrk <options> <url>                            '',
      ''  Options:                                            '',
      ''      -c, --connections <N>  Connections to keep open   '',
      ''      -d, --duration    <T>  Duration of test           '',
      ''      -t, --threads     <N>  Number of threads to use   '',
      ''                                                        '',
      ''      -H, --header      <H>  Add header to request      '',
      ''          --latency          Print latency statistics   '',
      ''          --timeout     <T>  Socket/request timeout     '',
      ''          --insecure         Skip TLS cert verification '',
      ''      -X, --method   <METH>  HTTP method (default GET)  '',
      ''          --path         <P>  Request path (default /)  '',
      ''      -b, --body        <B>  Request body               '',
      ''          --http <VER>       auto | http1 | http2 | http3 '',
      ''          --http2            Force HTTP/2                '',
      ''          --http3            Force HTTP/3 over QUIC      '',
      ''          --streams <N>      Concurrent streams (HTTP/3) '',
      ''      -v, --version          Print version details      '',
      ''                                                        '',
      ''  Numeric arguments may include a SI unit (1k, 1M, 1G)  '',
      ''  Time arguments may include a time unit (2s, 2m, 2h)   ''])"

definition usage :: "'a outcome" where
  "usage = Exit 1 usage_text ''''"

definition version_line :: string where
  "version_line = ''wrk 0.1.0 [async]''"

definition selected_version :: "cli \<Rightarrow> http_version" where
  "selected_version c =
     (if cli_http3 c then Http3 else if cli_http2 c then Http2 else to_http_version (cli_http_version c))"

definition or_default :: "'a \<Rightarrow> 'a option \<Rightarrow> 'a" where
  "or_default d v = (case v of None \<Rightarrow> d | Some x \<Rightarrow> x)"

definition parse_args :: "cli option \<Rightarrow> config outcome" where
  "parse_args parsed = (case parsed of None \<Rightarrow> usage | Some c \<Rightarrow>
     if cli_version c then Exit 0 (println (version_line @ '' '') @ println ''Copyright (C) 2012 Will Glozer'') ''''
     else if cli_help c then usage
     else (case cli_url c of None \<Rightarrow> usage | Some url \<Rightarrow>
       (let threads = or_default DEFAULT_THREADS (cli_threads c);
            connections = or_default DEFAULT_CONNECTIONS (cli_connections c);
            duration = or_default DEFAULT_DURATION_SECS (cli_duration c);
            timeout = or_default SOCKET_TIMEOUT_MS (map_option (\<lambda>t. t * 1000) (cli_timeout c));
            http_version = selected_version c;
            streams = cli_streams_per_conn c
        in if threads = 0 \<or> duration = 0
             then Exit 1 '''' (println ''invalid number of threads or duration'')
           else if connections = 0 \<or> connections < threads
             then Exit 1 '''' (println ''number of connections must be >= threads'')
           else if streams = 0 then Exit 1 '''' (println ''--streams must be >= 1'')
           else (case parse_url url of
             Inl e \<Rightarrow> Exit 1 '''' (println (''invalid URL: '' @ e))
           | Inr (scheme, host, port) \<Rightarrow>
               if http_version \<in> {Http3, Http2} \<and> scheme = Http
               then Exit 1 '''' (println ''--http2 / --http3 requires an https:// URL'')
               else Done \<lparr>
                 cfg_threads = threads, cfg_connections = connections, cfg_duration = duration,
                 cfg_timeout = timeout, cfg_latency = cli_latency c, cfg_insecure = cli_insecure c,
                 cfg_method = method_as_str (cli_method c), cfg_path = cli_path c,
                 cfg_body = or_default [] (cli_body c), cfg_headers = cli_header c,
                 cfg_scheme = scheme, cfg_host = host, cfg_port = port, cfg_url = url,
                 cfg_http_version = http_version, cfg_streams_per_conn = streams,
                 cfg_resolved = None\<rparr>))))"

section \<open>Validity\<close>

definition valid_config :: "config \<Rightarrow> bool" where
  "valid_config c \<longleftrightarrow> 0 < cfg_threads c \<and> 0 < cfg_duration c \<and> cfg_threads c \<le> cfg_connections c
     \<and> 0 < cfg_streams_per_conn c \<and> cfg_host c \<noteq> []
     \<and> (cfg_http_version c \<in> {Http2, Http3} \<longrightarrow> cfg_scheme c = Https)
     \<and> parse_url (cfg_url c) = Inr (cfg_scheme c, cfg_host c, cfg_port c)
     \<and> cfg_method c \<in> range method_as_str \<and> cfg_resolved c = None"

lemma not_Http [simp]: "sch \<noteq> Http \<longleftrightarrow> sch = Https"
  by (cases sch) simp_all

lemma parse_url_host: "parse_url u = Inr (sch, h, p) \<Longrightarrow> h \<noteq> []"
  by (auto simp: parse_url_def Let_def split: option.splits sum.splits if_splits)

lemma parse_args_valid: "parse_args parsed = Done c \<Longrightarrow> valid_config c"
  using parse_url_host
  by (auto simp: parse_args_def usage_def valid_config_def Let_def word_gt_0 not_less
      split: option.splits if_splits sum.splits prod.splits)

end
