(* ===== verification/Config_Props.thy ===== *)
theory Config_Props
  imports Config
begin

text \<open>
  The properties of \<open>src/config.rs\<close>: what a configuration that leaves \<open>parse_args\<close> guarantees
  to the rest of the program, when the program exits instead, and how URLs and headers are read.
\<close>

section \<open>Strings\<close>

lemma split_once_first:
  assumes "\<forall>n < length a. take (length p) (drop n a @ p @ b) \<noteq> p" "p \<noteq> []"
  shows "split_once p (a @ p @ b) = Some (a, b)"
  using assms(1)
proof (induction a)
  case Nil
  then show ?case using assms(2) by (cases p) simp_all
next
  case (Cons c cs)
  have "take (length p) (c # cs @ p @ b) \<noteq> p" using Cons.prems by (metis append_Cons drop0 length_greater_0_conv list.discI)
  moreover have "\<forall>n < length cs. take (length p) (drop n cs @ p @ b) \<noteq> p"
    using Cons.prems by (metis Suc_less_eq drop_Suc_Cons length_Cons)
  ultimately show ?case using Cons.IH by simp
qed

lemma split_once_char: "c \<notin> set a \<Longrightarrow> split_once [c] (a @ c # b) = Some (a, b)"
  by (induction a) auto

lemma split_once_char_None: "split_once [c] s = None \<longleftrightarrow> c \<notin> set s"
  by (induction s) auto

lemma find_char_first:
  assumes "\<forall>c \<in> set a. c \<notin> set cs" "b = [] \<or> hd b \<in> set cs"
  shows "take (case find_char cs (a @ b) of Some i \<Rightarrow> i | None \<Rightarrow> length (a @ b)) (a @ b) = a"
proof -
  have "takeWhile (\<lambda>c. c \<notin> set cs) (a @ b) = a @ takeWhile (\<lambda>c. c \<notin> set cs) b"
    using assms(1) by (simp add: takeWhile_append2)
  also have "takeWhile (\<lambda>c. c \<notin> set cs) b = []" using assms(2) by (cases b) auto
  finally show ?thesis by (simp add: find_char_def Let_def)
qed

lemma rfind_char_last:
  assumes "c \<notin> set b"
  shows "rfind_char c (a @ c # b) = Some (length a)"
proof -
  have "dropWhile (\<lambda>x. x \<noteq> c) (rev b @ c # rev a) = c # rev a"
    using assms by (subst dropWhile_append2) auto
  then show ?thesis by (simp add: rfind_char_def)
qed

lemma rfind_char_None: "c \<notin> set s \<Longrightarrow> rfind_char c s = None"
  by (simp add: rfind_char_def dropWhile_eq_Nil_conv)

lemma show_u16_digits: "list_all is_digit (show_u16 p)" "show_u16 p \<noteq> []" "c \<in> set (show_u16 p) \<Longrightarrow> is_digit c"
  using show_dec_digits [of "uint p"] by (simp_all add: show_u16_def list_all_iff)

section \<open>The command line\<close>

lemma valid_config_div:
  assumes "valid_config c"
  shows "0 < cfg_connections c div cfg_threads c"
proof -
  have "0 < unat (cfg_threads c)" "unat (cfg_threads c) \<le> unat (cfg_connections c)"
    using assms by (auto simp: valid_config_def word_less_nat_alt word_le_nat_alt)
  then have "0 < unat (cfg_connections c) div unat (cfg_threads c)" by (simp add: div_greater_zero_iff)
  then show ?thesis by (simp add: word_less_nat_alt unat_div)
qed

text \<open>C15: what a configuration guarantees. When \<open>parse_args\<close> returns, there is at least one thread, at
  least as many connections as threads, at least one stream per connection, a duration, a host, a
  method that is one of the seven, and an \<open>https\<close> target whenever HTTP/2 or HTTP/3 was asked for;
  scheme, host and port are those of the URL. In particular the number of connections per thread,
  \<open>connections / threads\<close>, is never 0.\<close>

theorem parse_args_guarantees:
  assumes "parse_args parsed = Done c"
  shows "valid_config c \<and> 0 < cfg_connections c div cfg_threads c"
  using parse_args_valid [OF assms] valid_config_div by blast

definition example_cli :: cli where
  "example_cli = \<lparr>cli_connections = Some 100, cli_duration = None, cli_threads = Some 4,
     cli_header = [], cli_latency = True, cli_insecure = False, cli_timeout = None,
     cli_method = Get, cli_path = ''/'', cli_body = None, cli_http_version = Arg_Auto,
     cli_http2 = False, cli_http3 = False, cli_streams_per_conn = 1, cli_version = False,
     cli_help = False, cli_url = Some ''https://localhost:8443/index''\<rparr>"

definition example_config :: config where
  "example_config = \<lparr>cfg_threads = 4, cfg_connections = 100, cfg_duration = 10, cfg_timeout = 2000,
     cfg_latency = True, cfg_insecure = False, cfg_method = ''GET'', cfg_path = ''/'', cfg_body = [],
     cfg_headers = [], cfg_scheme = Https, cfg_host = ''localhost'', cfg_port = 8443,
     cfg_url = ''https://localhost:8443/index'', cfg_http_version = Auto,
     cfg_streams_per_conn = 1, cfg_resolved = None\<rparr>"

lemma parse_example: "parse_args (Some example_cli) = Done example_config"
  by code_simp

theorem parse_args_guarantees_witness:
  "valid_config example_config \<and> 0 < cfg_connections example_config div cfg_threads example_config"
  by (rule parse_args_guarantees [OF parse_example])

text \<open>C24: when the program exits. The exit code is 0 exactly when the version was asked for, and 1
  otherwise; a configuration is returned exactly when neither version nor help was asked for, the
  numbers are in range, and the URL parses and fits the protocol.\<close>

theorem parse_args_outcomes:
  shows "(case parse_args parsed of
      Exit rc out err \<Rightarrow> rc = (if \<exists>c. parsed = Some c \<and> cli_version c then 0 else 1)
    | Done c \<Rightarrow> True) \<and>
    ((\<exists>cfg. parse_args parsed = Done cfg) \<longleftrightarrow>
      (\<exists>c url sch h p. parsed = Some c \<and> \<not> cli_version c \<and> \<not> cli_help c \<and> cli_url c = Some url
        \<and> cli_threads c \<noteq> Some 0 \<and> cli_duration c \<noteq> Some 0 \<and> cli_connections c \<noteq> Some 0
        \<and> or_default DEFAULT_THREADS (cli_threads c) \<le> or_default DEFAULT_CONNECTIONS (cli_connections c)
        \<and> cli_streams_per_conn c \<noteq> 0 \<and> parse_url url = Inr (sch, h, p)
        \<and> (selected_version c \<in> {Http2, Http3} \<longrightarrow> sch = Https)))"
proof -
  have d: "or_default v x = 0 \<longleftrightarrow> x = Some 0" if "v \<noteq> 0" for v :: u64 and x
    using that by (auto simp: or_default_def split: option.splits)
  have dd: "DEFAULT_THREADS \<noteq> 0" "DEFAULT_CONNECTIONS \<noteq> 0" "DEFAULT_DURATION_SECS \<noteq> 0"
    by (simp_all add: DEFAULT_THREADS_def DEFAULT_CONNECTIONS_def DEFAULT_DURATION_SECS_def)
  show ?thesis
    by (auto simp: parse_args_def usage_def Let_def d [OF dd(1)] d [OF dd(2)] d [OF dd(3)] not_less
        split: option.splits sum.splits)
qed

theorem parse_args_outcomes_witness: "\<exists>cfg. parse_args (Some example_cli) = Done cfg"
proof -
  have url: "parse_url ''https://localhost:8443/index'' = Inr (Https, ''localhost'', 8443)" by code_simp
  have v: "selected_version example_cli = Auto" by code_simp
  have le: "or_default DEFAULT_THREADS (cli_threads example_cli)
    \<le> or_default DEFAULT_CONNECTIONS (cli_connections example_cli)" by code_simp
  show ?thesis
    using parse_args_outcomes [of "Some example_cli"] url v le by (auto simp: example_cli_def)
qed

text \<open>The timeout. The milliseconds are the seconds of \<open>-T\<close> times 1000 modulo \<open>2^64\<close>: the product
  is not checked, so a large \<open>-T\<close> becomes a small timeout (or none at all) without an error.\<close>

theorem parse_args_timeout:
  assumes "parse_args (Some c) = Done cfg"
  shows "unat (cfg_timeout cfg) = (case cli_timeout c of None \<Rightarrow> 2000 | Some t \<Rightarrow> unat t * 1000 mod 2 ^ 64)"
proof -
  have "cfg_timeout cfg = or_default SOCKET_TIMEOUT_MS (map_option (\<lambda>t. t * 1000) (cli_timeout c))"
    using assms by (auto simp: parse_args_def usage_def Let_def split: option.splits if_splits sum.splits)
  then show ?thesis
    by (auto simp: or_default_def SOCKET_TIMEOUT_MS_def unat_word_ariths split: option.splits)
qed

theorem parse_args_timeout_witness:
  "cfg_timeout (case parse_args (Some (example_cli\<lparr>cli_timeout := Some (2 ^ 61)\<rparr>)) of Done cfg \<Rightarrow> cfg) = 0"
proof -
  have "parse_args (Some (example_cli\<lparr>cli_timeout := Some (2 ^ 61)\<rparr>)) = Done (example_config\<lparr>cfg_timeout := 0\<rparr>)"
    by code_simp
  from parse_args_timeout [OF this] this show ?thesis by (simp add: example_cli_def)
qed

section \<open>URLs and headers\<close>

lemma separator_not_digit: "c \<in> set '':/?#'' \<Longrightarrow> \<not> is_digit c"
  by (auto simp: is_digit_def code_def)

definition scheme_name :: "scheme \<Rightarrow> string" where
  "scheme_name sch = (case sch of Http \<Rightarrow> ''http'' | Https \<Rightarrow> ''https'')"

lemma split_scheme:
  assumes "to_ascii_lowercase s = scheme_name sch"
  shows "split_once ''://'' (s @ ''://'' @ b) = Some (s, b)"
proof (intro split_once_first)
  have "CHR '':'' \<notin> set s"
  proof
    assume "CHR '':'' \<in> set s"
    then have "to_lower CHR '':'' \<in> set (to_ascii_lowercase s)" by (simp add: to_ascii_lowercase_def)
    moreover have "to_lower CHR '':'' = CHR '':''" by code_simp
    ultimately show False using assms by (simp add: scheme_name_def split: scheme.splits)
  qed
  then show "\<forall>n < length s. take (length ''://'') (drop n s @ ''://'' @ b) \<noteq> ''://''"
    by (metis Cons_nth_drop_Suc append_Cons list.inject length_Cons nth_mem take_Suc_Cons)
qed simp

lemma parse_url_scheme:
  assumes "to_ascii_lowercase s = scheme_name sch"
  shows "parse_url (s @ ''://'' @ b) =
    (case split_authority sch (take (case find_char ''/?#'' b of Some i \<Rightarrow> i | None \<Rightarrow> length b) b) of
       Inl e \<Rightarrow> Inl e | Inr (host, port) \<Rightarrow> if host = [] then Inl ''missing host'' else Inr (sch, host, port))"
  unfolding parse_url_def split_scheme [OF assms] using assms
  by (cases sch) (simp_all add: scheme_name_def Let_def split: sum.splits)

text \<open>C17: round trip of the URL. A scheme in either case, a host without \<open>:/?#\<close>, an optional port and
  anything that starts with \<open>/\<close>, \<open>?\<close> or \<open>#\<close> (or nothing) are read back as they were written, with
  the scheme's port when none is given.\<close>

theorem parse_url_print:
  assumes "to_ascii_lowercase scheme_str = scheme_name sch"
    and "host \<noteq> []" "set host \<inter> set '':/?#'' = {}" "rest = [] \<or> hd rest \<in> set ''/?#''"
  shows "parse_url (scheme_str @ ''://'' @ host @ '':'' @ show_u16 p @ rest) = Inr (sch, host, p)
    \<and> parse_url (scheme_str @ ''://'' @ host @ rest) = Inr (sch, host, default_port_for sch)"
proof -
  have digits: "c \<notin> set (show_u16 p)" if "c \<in> set '':/?#''" for c
    using that show_u16_digits(3) separator_not_digit by blast
  let ?cut = "\<lambda>b. take (case find_char ''/?#'' b of Some i \<Rightarrow> i | None \<Rightarrow> length b) b"
  have "?cut ((host @ '':'' @ show_u16 p) @ rest) = host @ '':'' @ show_u16 p"
    using assms(3,4) digits by (intro find_char_first) auto
  moreover have "split_authority sch (host @ '':'' @ show_u16 p) = Inr (host, p)"
    using digits by (simp add: split_authority_def rfind_char_last show_u16_digits)
  moreover have "?cut (host @ rest) = host"
    using assms(3,4) by (intro find_char_first) auto
  moreover have "split_authority sch host = Inr (host, default_port_for sch)"
    using assms(3) by (simp add: split_authority_def rfind_char_None)
  ultimately show ?thesis
    using assms(2) parse_url_scheme [OF assms(1), of "(host @ '':'' @ show_u16 p) @ rest"]
      parse_url_scheme [OF assms(1), of "host @ rest"] by simp
qed

theorem parse_url_print_witness: "parse_url ''HTTPS://localhost:8443/x'' = Inr (Https, ''localhost'', 8443)"
proof -
  have "to_ascii_lowercase ''HTTPS'' = ''https''" by code_simp
  moreover have "show_u16 8443 = ''8443''" by code_simp
  ultimately show ?thesis using parse_url_print [of "''HTTPS''" Https "''localhost''" "''/x''" 8443] by (simp add: scheme_name_def)
qed

text \<open>Headers. A \<open>-H\<close> argument is split at its first colon, and name and value lose the white space
  around them; it is refused exactly when it has no colon.\<close>

theorem header_arg_split:
  shows "(CHR '':'' \<notin> set k \<longrightarrow> header_arg (k @ '':'' @ v) = Inr (trim k, trim v))
    \<and> ((\<exists>e. header_arg s = Inl e) \<longleftrightarrow> CHR '':'' \<notin> set s)"
  using split_once_char [of "CHR '':''" k v] split_once_char_None [of "CHR '':''" s]
  by (auto simp: header_arg_def split: option.splits)

theorem header_arg_split_witness: "header_arg ''Accept : text/plain'' = Inr (''Accept'', ''text/plain'')"
proof -
  have "trim ''Accept '' = ''Accept''" "trim '' text/plain'' = ''text/plain''" by code_simp+
  then show ?thesis using header_arg_split [of "''Accept ''" "'' text/plain''"] by simp
qed

end
