(* ===== verification/Transport.thy ===== *)
theory Transport
  imports Config
begin

text \<open>
  The enum \<open>Transport\<close> of \<open>src/connection.rs\<close> and the function \<open>connect\<close> that makes one. The two
  streams it wraps, tokio's \<open>TcpStream\<close> and tokio-rustls' \<open>TlsStream\<close>, are library code: a
  stream is a parameter, the record of its four poll functions on a state of any type. A poll gets the
  waker of its task, changes the stream, and answers \<open>Io_Pending\<close> or \<open>Io_Ready\<close> with a
  result; a read also changes the buffer it fills.
\<close>

section \<open>Streams\<close>

datatype 'a io_poll = Io_Pending | Io_Ready "string + 'a"

text \<open>\<open>ReadBuf\<close>: the bytes filled so far and the capacity.\<close>

record read_buf =
  rb_filled :: string
  rb_capacity :: nat

record ('w, 's) stream_io =
  io_read :: "'w \<Rightarrow> read_buf \<Rightarrow> 's \<Rightarrow> unit io_poll \<times> read_buf \<times> 's"
  io_write :: "'w \<Rightarrow> string \<Rightarrow> 's \<Rightarrow> nat io_poll \<times> 's"
  io_flush :: "'w \<Rightarrow> 's \<Rightarrow> unit io_poll \<times> 's"
  io_shutdown :: "'w \<Rightarrow> 's \<Rightarrow> unit io_poll \<times> 's"

section \<open>The transport\<close>

datatype ('p, 't) transport = Plain 'p | Tls 't

fun transport_poll_read ::
    "('w, 'p) stream_io \<Rightarrow> ('w, 't) stream_io \<Rightarrow> 'w \<Rightarrow> read_buf \<Rightarrow> ('p, 't) transport
      \<Rightarrow> unit io_poll \<times> read_buf \<times> ('p, 't) transport" where
  "transport_poll_read P T cx buf (Plain s) = (let (r, b, s') = io_read P cx buf s in (r, b, Plain s'))"
| "transport_poll_read P T cx buf (Tls s) = (let (r, b, s') = io_read T cx buf s in (r, b, Tls s'))"

fun transport_poll_write ::
    "('w, 'p) stream_io \<Rightarrow> ('w, 't) stream_io \<Rightarrow> 'w \<Rightarrow> string \<Rightarrow> ('p, 't) transport
      \<Rightarrow> nat io_poll \<times> ('p, 't) transport" where
  "transport_poll_write P T cx buf (Plain s) = map_prod id Plain (io_write P cx buf s)"
| "transport_poll_write P T cx buf (Tls s) = map_prod id Tls (io_write T cx buf s)"

fun transport_poll_flush ::
    "('w, 'p) stream_io \<Rightarrow> ('w, 't) stream_io \<Rightarrow> 'w \<Rightarrow> ('p, 't) transport
      \<Rightarrow> unit io_poll \<times> ('p, 't) transport" where
  "transport_poll_flush P T cx (Plain s) = map_prod id Plain (io_flush P cx s)"
| "transport_poll_flush P T cx (Tls s) = map_prod id Tls (io_flush T cx s)"

fun transport_poll_shutdown ::
    "('w, 'p) stream_io \<Rightarrow> ('w, 't) stream_io \<Rightarrow> 'w \<Rightarrow> ('p, 't) transport
      \<Rightarrow> unit io_poll \<times> ('p, 't) transport" where
  "transport_poll_shutdown P T cx (Plain s) = map_prod id Plain (io_shutdown P cx s)"
| "transport_poll_shutdown P T cx (Tls s) = map_prod id Tls (io_shutdown T cx s)"

definition transport_io ::
    "('w, 'p) stream_io \<Rightarrow> ('w, 't) stream_io \<Rightarrow> ('w, ('p, 't) transport) stream_io" where
  "transport_io P T = \<lparr>io_read = transport_poll_read P T, io_write = transport_poll_write P T,
     io_flush = transport_poll_flush P T, io_shutdown = transport_poll_shutdown P T\<rparr>"

section \<open>Connecting\<close>

text \<open>
  \<open>connect\<close>: \<open>tcp\<close> is \<open>TcpStream::connect\<close>, the connector \<open>tls\<close> is its handshake with the
  server name over the socket; a failure of either is an error. The two socket options the
  source sets next are hints whose results it drops.
\<close>

definition connect ::
    "config \<Rightarrow> ('n \<Rightarrow> 'p \<Rightarrow> 't option) option \<Rightarrow> 'n option \<Rightarrow> (string \<Rightarrow> 'p option)
      \<Rightarrow> ('p, 't) transport option" where
  "connect c tls server_name tcp_connect = do {
     let addr = cfg_host c @ '':'' @ show_u16 (cfg_port c);
     tcp \<leftarrow> tcp_connect addr;
     (case cfg_scheme c of
        Http \<Rightarrow> Some (Plain tcp)
      | Https \<Rightarrow> do {
          tls \<leftarrow> tls;
          sni \<leftarrow> server_name;
          tls_stream \<leftarrow> tls sni tcp;
          Some (Tls tls_stream)
        })
   }"

section \<open>What the users of a stream see\<close>

text \<open>A sequence of polls, with the answers it gets: what hyper does with the transport it is given.\<close>

datatype 'w io_op =
    Op_Read 'w read_buf
  | Op_Write 'w string
  | Op_Flush 'w
  | Op_Shutdown 'w

datatype io_answer =
    An_Read "unit io_poll" read_buf
  | An_Write "nat io_poll"
  | An_Flush "unit io_poll"
  | An_Shutdown "unit io_poll"

fun io_step :: "('w, 's) stream_io \<Rightarrow> 'w io_op \<Rightarrow> 's \<Rightarrow> io_answer \<times> 's" where
  "io_step S (Op_Read cx buf) s = (let (r, b, s') = io_read S cx buf s in (An_Read r b, s'))"
| "io_step S (Op_Write cx buf) s = map_prod An_Write id (io_write S cx buf s)"
| "io_step S (Op_Flush cx) s = map_prod An_Flush id (io_flush S cx s)"
| "io_step S (Op_Shutdown cx) s = map_prod An_Shutdown id (io_shutdown S cx s)"

fun io_run :: "('w, 's) stream_io \<Rightarrow> 'w io_op list \<Rightarrow> 's \<Rightarrow> io_answer list \<times> 's" where
  "io_run S [] s = ([], s)"
| "io_run S (op # ops) s =
     (let (a, s') = io_step S op s; (as, s'') = io_run S ops s' in (a # as, s''))"

lemma transport_step:
  "io_step (transport_io P T) op (Plain p) = map_prod id Plain (io_step P op p)"
  "io_step (transport_io P T) op (Tls t) = map_prod id Tls (io_step T op t)"
  by (cases op; simp add: transport_io_def map_prod_def case_prod_beta Let_def)+

lemma transport_run:
  "io_run (transport_io P T) ops (Plain p) = map_prod id Plain (io_run P ops p)"
  "io_run (transport_io P T) ops (Tls t) = map_prod id Tls (io_run T ops t)"
  by (induction ops arbitrary: p t) (simp_all add: transport_step map_prod_def case_prod_beta Let_def)

end
