(* ===== verification/Transport_Props.thy ===== *)
theory Transport_Props
  imports Transport Config_Props
begin

text \<open>What hyper gets from \<open>connect\<close>: a stream that is the socket, or the TLS session over it.\<close>

lemma connect_Some:
  assumes "connect c tls server_name tcp_connect = Some tr"
  obtains p where "tcp_connect (cfg_host c @ '':'' @ show_u16 (cfg_port c)) = Some p"
    "cfg_scheme c = Http" "tr = Plain p"
  | p h n t where "tcp_connect (cfg_host c @ '':'' @ show_u16 (cfg_port c)) = Some p"
    "cfg_scheme c = Https" "tls = Some h" "server_name = Some n" "h n p = Some t" "tr = Tls t"
  using assms by (auto simp: connect_def Let_def split: scheme.splits bind_splits)

text \<open>C32: the transport. When \<open>connect\<close> succeeds, it has opened a socket to the host and port of the
  URL, and whatever polls hyper makes of the transport it is given, their answers and their effects are
  those of one stream: for http that socket, for https the TLS session that the connector made over the
  socket for the server name. In particular nothing that is read, written, flushed or shut down for an
  https target bypasses the TLS session.\<close>

theorem connected_stream:
  assumes "connect c tls server_name tcp_connect = Some tr"
  shows "\<exists>p. tcp_connect (cfg_host c @ '':'' @ show_u16 (cfg_port c)) = Some p \<and>
    (case cfg_scheme c of
       Http \<Rightarrow> io_run (transport_io P T) ops tr = map_prod id Plain (io_run P ops p)
     | Https \<Rightarrow> \<exists>h n t. tls = Some h \<and> server_name = Some n \<and> h n p = Some t \<and>
         io_run (transport_io P T) ops tr = map_prod id Tls (io_run T ops t))"
  using assms by (rule connect_Some) (auto simp: transport_run)

text \<open>A stream in memory: what the peer has sent and what it has received.\<close>

definition memory_stream :: "(unit, string \<times> string) stream_io" where
  "memory_stream = \<lparr>
     io_read = (\<lambda>_ buf (inp, out). let n = rb_capacity buf - length (rb_filled buf)
        in (Io_Ready (Inr ()), buf\<lparr>rb_filled := rb_filled buf @ take n inp\<rparr>, (drop n inp, out))),
     io_write = (\<lambda>_ buf (inp, out). (Io_Ready (Inr (length buf)), (inp, out @ buf))),
     io_flush = (\<lambda>_ s. (Io_Ready (Inr ()), s)),
     io_shutdown = (\<lambda>_ s. (Io_Ready (Inl ''closed''), s))\<rparr>"

theorem connected_stream_witness:
  "io_run (transport_io memory_stream memory_stream)
     [Op_Write () ''GET'', Op_Flush (), Op_Read () \<lparr>rb_filled = [], rb_capacity = 2\<rparr>, Op_Shutdown ()]
     (Tls (''200'', ''''))
   = ([An_Write (Io_Ready (Inr 3)), An_Flush (Io_Ready (Inr ())),
       An_Read (Io_Ready (Inr ())) \<lparr>rb_filled = ''20'', rb_capacity = 2\<rparr>, An_Shutdown (Io_Ready (Inl ''closed''))],
      Tls (''0'', ''GET''))"
proof -
  let ?ops = "[Op_Write () ''GET'', Op_Flush (), Op_Read () \<lparr>rb_filled = [], rb_capacity = 2\<rparr>, Op_Shutdown ()]"
  have run: "io_run memory_stream ?ops (''200'', '''')
      = ([An_Write (Io_Ready (Inr 3)), An_Flush (Io_Ready (Inr ())),
          An_Read (Io_Ready (Inr ())) \<lparr>rb_filled = ''20'', rb_capacity = 2\<rparr>, An_Shutdown (Io_Ready (Inl ''closed''))],
         (''0'', ''GET''))"
    by code_simp
  have https: "cfg_scheme example_config = Https" by (simp add: example_config_def)
  have "connect example_config (Some (\<lambda>_ s. Some s)) (Some ()) (\<lambda>_. Some (''200'', ''''))
      = Some (Tls (''200'', '''') :: (string \<times> string, string \<times> string) transport)"
    by (simp add: connect_def https)
  from connected_stream [OF this, of memory_stream memory_stream ?ops] show ?thesis
    unfolding https by (auto simp only: scheme.case run option.inject map_prod_simp id_apply)
qed

end
