(* ===== verification/Counters.thy ===== *)
theory Counters
  imports Stats_Spec
begin

text \<open>
  The counters of \<open>src/connection.rs\<close>: each worker owns one \<open>Counters\<close>, its tasks add to it, and
  \<open>main\<close> sums the snapshots taken when the workers end. A snapshot is a datatype, so that the
  library's \<open>sum_list\<close> applies to it.
\<close>

record counters =
  k_complete :: u64
  k_bytes :: u64
  k_errors_connect :: u64
  k_errors_read :: u64
  k_errors_write :: u64
  k_errors_status :: u64
  k_errors_timeout :: u64

definition counters_default :: counters where
  "counters_default = \<lparr>k_complete = 0, k_bytes = 0, k_errors_connect = 0, k_errors_read = 0,
     k_errors_write = 0, k_errors_status = 0, k_errors_timeout = 0\<rparr>"

datatype snapshot = Snapshot (s_complete: u64) (s_bytes: u64) (s_errors_connect: u64)
  (s_errors_read: u64) (s_errors_write: u64) (s_errors_status: u64) (s_errors_timeout: u64)

instantiation snapshot :: comm_monoid_add
begin

definition zero_snapshot :: snapshot where
  "0 = Snapshot 0 0 0 0 0 0 0"

definition plus_snapshot :: "snapshot \<Rightarrow> snapshot \<Rightarrow> snapshot" where
  "a + b = Snapshot (s_complete a + s_complete b) (s_bytes a + s_bytes b)
     (s_errors_connect a + s_errors_connect b) (s_errors_read a + s_errors_read b)
     (s_errors_write a + s_errors_write b) (s_errors_status a + s_errors_status b)
     (s_errors_timeout a + s_errors_timeout b)"

instance
  by standard (auto simp: zero_snapshot_def plus_snapshot_def add_ac intro: snapshot.expand)

end

definition take_snapshot :: "counters \<Rightarrow> snapshot" where
  "take_snapshot c = Snapshot (k_complete c) (k_bytes c) (k_errors_connect c) (k_errors_read c)
     (k_errors_write c) (k_errors_status c) (k_errors_timeout c)"

definition snapshot_default :: snapshot where
  "snapshot_default = Snapshot 0 0 0 0 0 0 0"

text \<open>The loop of \<open>CounterSnapshot::sum\<close>, which adds field by field.\<close>

fun snapshot_sum_loop :: "snapshot \<Rightarrow> snapshot list \<Rightarrow> snapshot" where
  "snapshot_sum_loop t [] = t"
| "snapshot_sum_loop t (s # ss) =
     snapshot_sum_loop
       (Snapshot (s_complete t + s_complete s) (s_bytes t + s_bytes s)
          (s_errors_connect t + s_errors_connect s) (s_errors_read t + s_errors_read s)
          (s_errors_write t + s_errors_write s) (s_errors_status t + s_errors_status s)
          (s_errors_timeout t + s_errors_timeout s)) ss"

definition snapshot_sum :: "snapshot list \<Rightarrow> snapshot" where
  "snapshot_sum ss = snapshot_sum_loop snapshot_default ss"

lemma snapshot_sum_loop_plus: "snapshot_sum_loop t ss = t + sum_list ss"
  by (induction ss arbitrary: t) (simp_all add: plus_snapshot_def [symmetric] add.assoc)

lemma snapshot_sum_list: "snapshot_sum ss = sum_list ss"
  by (simp add: snapshot_sum_def snapshot_sum_loop_plus snapshot_default_def flip: zero_snapshot_def)

lemma snapshot_fields [simp]:
  "s_complete (sum_list ss) = (\<Sum>s\<leftarrow>ss. s_complete s)"
  "s_bytes (sum_list ss) = (\<Sum>s\<leftarrow>ss. s_bytes s)"
  "s_errors_connect (sum_list ss) = (\<Sum>s\<leftarrow>ss. s_errors_connect s)"
  "s_errors_read (sum_list ss) = (\<Sum>s\<leftarrow>ss. s_errors_read s)"
  "s_errors_write (sum_list ss) = (\<Sum>s\<leftarrow>ss. s_errors_write s)"
  "s_errors_status (sum_list ss) = (\<Sum>s\<leftarrow>ss. s_errors_status s)"
  "s_errors_timeout (sum_list ss) = (\<Sum>s\<leftarrow>ss. s_errors_timeout s)"
  by (induction ss) (simp_all add: zero_snapshot_def plus_snapshot_def)

section \<open>What a task shares\<close>

text \<open>
  What the tasks of a worker and the rest of the program share: the worker's counters and its rate
  counter, the global latency histogram, the stop flag, and the clock in nanoseconds.
\<close>

record shared =
  sh_counters :: counters
  sh_rate :: u64
  sh_latency :: stats
  sh_stop :: bool
  sh_now :: nat

definition add_complete :: "u64 \<Rightarrow> shared \<Rightarrow> shared" where
  [step_defs]: "add_complete n s = s\<lparr>sh_counters := (sh_counters s)\<lparr>k_complete := k_complete (sh_counters s) + n\<rparr>\<rparr>"

definition add_bytes :: "u64 \<Rightarrow> shared \<Rightarrow> shared" where
  [step_defs]: "add_bytes n s = s\<lparr>sh_counters := (sh_counters s)\<lparr>k_bytes := k_bytes (sh_counters s) + n\<rparr>\<rparr>"

definition inc_connect :: "shared \<Rightarrow> shared" where
  [step_defs]: "inc_connect s = s\<lparr>sh_counters := (sh_counters s)\<lparr>k_errors_connect := k_errors_connect (sh_counters s) + 1\<rparr>\<rparr>"

definition inc_read :: "shared \<Rightarrow> shared" where
  [step_defs]: "inc_read s = s\<lparr>sh_counters := (sh_counters s)\<lparr>k_errors_read := k_errors_read (sh_counters s) + 1\<rparr>\<rparr>"

definition inc_write :: "shared \<Rightarrow> shared" where
  [step_defs]: "inc_write s = s\<lparr>sh_counters := (sh_counters s)\<lparr>k_errors_write := k_errors_write (sh_counters s) + 1\<rparr>\<rparr>"

definition inc_status :: "shared \<Rightarrow> shared" where
  [step_defs]: "inc_status s = s\<lparr>sh_counters := (sh_counters s)\<lparr>k_errors_status := k_errors_status (sh_counters s) + 1\<rparr>\<rparr>"

definition inc_timeout :: "shared \<Rightarrow> shared" where
  [step_defs]: "inc_timeout s = s\<lparr>sh_counters := (sh_counters s)\<lparr>k_errors_timeout := k_errors_timeout (sh_counters s) + 1\<rparr>\<rparr>"

definition inc_rate :: "shared \<Rightarrow> shared" where
  [step_defs]: "inc_rate s = s\<lparr>sh_rate := sh_rate s + 1\<rparr>"

section \<open>Time\<close>

text \<open>\<open>Duration::from_millis\<close> in nanoseconds, and \<open>elapsed.as_micros().min(u64::MAX as u128) as u64\<close>.\<close>

definition from_millis :: "u64 \<Rightarrow> nat" where
  "from_millis ms = unat ms * 1000000"

definition as_micros_u64 :: "nat \<Rightarrow> u64" where
  "as_micros_u64 ns = word_of_nat (min (ns div 1000) (2 ^ 64 - 1))"

lemma unat_as_micros: "unat (as_micros_u64 ns) = min (ns div 1000) (2 ^ 64 - 1)"
  by (simp add: as_micros_u64_def unat_of_nat)

text \<open>Within the timeout, the microseconds fit below a limit of \<open>timeout * 1000 + 1\<close>.\<close>

lemma micros_within:
  assumes "ns \<le> from_millis t"
  shows "unat (as_micros_u64 ns) \<le> unat t * 1000"
proof -
  have "ns div 1000 \<le> unat t * 1000000 div 1000" using assms by (simp add: from_millis_def div_le_mono)
  then show ?thesis by (simp add: unat_as_micros min.coboundedI1)
qed

section \<open>The contract of a benchmark task\<close>

text \<open>
  Responses that are complete but not yet flushed into \<open>complete\<close> are the task's local count. What
  the tasks of the three protocols have in common: \<open>complete\<close> and the local counts on one side,
  the samples of the latency histogram and the timeouts on the other, change by the same amount.
  \<open>sound\<close> says that the configuration makes requests; then no step panics.
\<close>

definition balance :: "shared \<Rightarrow> u64" where
  "balance s = k_complete (sh_counters s) - k_errors_timeout (sh_counters s) - st_count (sh_latency s)"

lemma balance_simps [simp]:
  "balance (add_complete n s) = balance s + n"
  "balance (add_bytes n s) = balance s"
  "balance (inc_connect s) = balance s"
  "balance (inc_read s) = balance s"
  "balance (inc_write s) = balance s"
  "balance (inc_status s) = balance s"
  "balance (inc_timeout s) = balance s - 1"
  "balance (inc_rate s) = balance s"
  by (simp_all add: balance_def step_defs)

lemma shared_simps [simp]:
  "sh_latency (add_complete n s) = sh_latency s" "sh_stop (add_complete n s) = sh_stop s"
  "sh_latency (add_bytes n s) = sh_latency s" "sh_stop (add_bytes n s) = sh_stop s"
  "sh_latency (inc_connect s) = sh_latency s" "sh_stop (inc_connect s) = sh_stop s"
  "sh_latency (inc_read s) = sh_latency s" "sh_stop (inc_read s) = sh_stop s"
  "sh_latency (inc_write s) = sh_latency s" "sh_stop (inc_write s) = sh_stop s"
  "sh_latency (inc_status s) = sh_latency s" "sh_stop (inc_status s) = sh_stop s"
  "sh_latency (inc_timeout s) = sh_latency s" "sh_stop (inc_timeout s) = sh_stop s"
  "sh_latency (inc_rate s) = sh_latency s" "sh_stop (inc_rate s) = sh_stop s"
  "sh_now (add_complete n s) = sh_now s" "sh_now (add_bytes n s) = sh_now s"
  "sh_now (inc_connect s) = sh_now s" "sh_now (inc_read s) = sh_now s"
  "sh_now (inc_write s) = sh_now s" "sh_now (inc_status s) = sh_now s"
  "sh_now (inc_timeout s) = sh_now s" "sh_now (inc_rate s) = sh_now s"
  by (simp_all add: step_defs)

text \<open>What a step may do to the shared part: record samples, and leave the flag and the clock alone.\<close>

definition tame :: "shared \<Rightarrow> shared \<Rightarrow> bool" where
  "tame s s' \<longleftrightarrow> (\<exists>ns. record_all ns (sh_latency s) = Some (sh_latency s'))
     \<and> sh_stop s' = sh_stop s \<and> sh_now s' = sh_now s"

lemma tame_refl: "sh_latency s' = sh_latency s \<Longrightarrow> sh_stop s' = sh_stop s \<Longrightarrow> sh_now s' = sh_now s \<Longrightarrow> tame s s'"
  unfolding tame_def by (metis record_all.simps(1))

lemma tame_safe:
  "tame s s' \<Longrightarrow> stats_safe (sh_latency s) \<Longrightarrow>
    stats_safe (sh_latency s') \<and> st_limit (sh_latency s') = st_limit (sh_latency s)"
  using record_all_Some [of "sh_latency s"] unfolding tame_def by (metis option.inject)

lemma record_all_append:
  "record_all xs s = Some s1 \<Longrightarrow> record_all ys s1 = Some s2 \<Longrightarrow> record_all (xs @ ys) s = Some s2"
  by (induction xs arbitrary: s) (auto split: Option.bind_splits)

lemma tame_trans: "tame s s1 \<Longrightarrow> tame s1 s2 \<Longrightarrow> tame s s2"
  unfolding tame_def using record_all_append by metis

lemma tame_same [simp]: "tame s s"
  by (rule tame_refl) simp_all

text \<open>Recording a response time: one sample more, or one timeout more.\<close>

definition record_latency :: "u64 \<Rightarrow> shared \<Rightarrow> shared option" where
  "record_latency us s = do {
     (ok, l) \<leftarrow> stats_record us (sh_latency s);
     Some (let s' = s\<lparr>sh_latency := l\<rparr> in if ok then s' else inc_timeout s')
   }"

lemma record_latency_Some:
  assumes "stats_safe (sh_latency s)"
  shows "\<exists>s'. record_latency us s = Some s' \<and> tame s s' \<and> balance s' = balance s - 1"
proof -
  obtain l where l: "stats_record us (sh_latency s) = Some (us < st_limit (sh_latency s), l)"
    "stats_safe l" "st_limit l = st_limit (sh_latency s)"
    using stats_record_Some [OF assms, of us] by blast
  have "record_all [us] (sh_latency s) = Some l" using l(1) by simp
  then have tame: "tame s s'" if "sh_latency s' = l" "sh_stop s' = sh_stop s" "sh_now s' = sh_now s" for s'
    using that unfolding tame_def by blast
  show ?thesis
  proof (cases "us < st_limit (sh_latency s)")
    case True
    then have "unat us < length (st_data (sh_latency s))"
      using stats_safeD(1) [OF assms] by (simp add: word_less_nat_alt)
    with l(1) True have "st_count l = st_count (sh_latency s) + 1"
      by (auto simp: stats_record_def Let_def split: if_splits)
    with l(1) True tame show ?thesis by (simp add: record_latency_def balance_def Let_def)
  next
    case False
    then have "l = sh_latency s" using l(1) by (simp add: stats_record_def not_less)
    with l(1) False tame show ?thesis by (simp add: record_latency_def Let_def)
  qed
qed

locale bench_task =
  fixes resume :: "'e \<Rightarrow> 't \<times> shared \<Rightarrow> ('t \<times> shared) option"
    and pend :: "'t \<Rightarrow> u64"
    and wf :: "'t \<Rightarrow> bool"
    and sound :: bool
  assumes resume_Some: "wf t \<Longrightarrow> stats_safe (sh_latency s) \<Longrightarrow> resume e (t, s) = Some (t', s') \<Longrightarrow>
      wf t' \<and> tame s s' \<and> balance s' + pend t' = balance s + pend t"
    and resume_None: "wf t \<Longrightarrow> stats_safe (sh_latency s) \<Longrightarrow> resume e (t, s) = None \<Longrightarrow> \<not> sound"

section \<open>Winding down\<close>

text \<open>A sequence of resumptions of one task.\<close>

fun run_task :: "('e \<Rightarrow> 't \<times> shared \<Rightarrow> ('t \<times> shared) option) \<Rightarrow> 'e list \<Rightarrow> 't \<times> shared \<Rightarrow> ('t \<times> shared) option" where
  "run_task resume [] ts = Some ts"
| "run_task resume (e # es) ts = do { ts' \<leftarrow> resume e ts; run_task resume es ts' }"

text \<open>How many of the events complete what the task awaits when they come.\<close>

fun completions ::
    "('e \<Rightarrow> 't \<times> shared \<Rightarrow> ('t \<times> shared) option) \<Rightarrow> ('e \<Rightarrow> 't \<Rightarrow> bool) \<Rightarrow> 'e list \<Rightarrow> 't \<times> shared \<Rightarrow> nat" where
  "completions resume completes [] ts = 0"
| "completions resume completes (e # es) ts = (if completes e (fst ts) then 1 else 0)
     + (case resume e ts of None \<Rightarrow> 0 | Some ts' \<Rightarrow> completions resume completes es ts')"

text \<open>
  A task that winds down once the stop flag is set: no event takes it further from its end or
  starts a request, none makes it panic, and each one that completes what the task awaits takes it
  closer; and until it has ended it awaits something.
\<close>

locale winding_task = bench_task resume pend wf sound
  for resume :: "'e \<Rightarrow> 't \<times> shared \<Rightarrow> ('t \<times> shared) option" and pend wf sound +
  fixes rank :: "'t \<Rightarrow> nat"
    and completes :: "'e \<Rightarrow> 't \<Rightarrow> bool"
  assumes stopped: "sh_stop s \<Longrightarrow> resume e (t, s) = Some (t', s') \<Longrightarrow>
      rank t' \<le> rank t \<and> sh_rate s' = sh_rate s"
    and closer: "wf t \<Longrightarrow> stats_safe (sh_latency s) \<Longrightarrow> sh_stop s \<Longrightarrow>
      \<exists>t' s'. resume e (t, s) = Some (t', s') \<and> (completes e t \<longrightarrow> rank t' < rank t)"
    and awaits: "0 < rank t \<Longrightarrow> \<exists>e. completes e t"
    and ended: "rank t = 0 \<Longrightarrow> pend t = 0"
begin

lemma winds_down:
  assumes "wf t" "stats_safe (sh_latency s)" "sh_stop s"
  shows "\<exists>t' s'. run_task resume es (t, s) = Some (t', s') \<and> completions resume completes es (t, s) + rank t' \<le> rank t
    \<and> balance s' + pend t' = balance s + pend t \<and> sh_rate s' = sh_rate s"
  using assms
proof (induction es arbitrary: t s)
  case (Cons e es)
  obtain t1 s1 where step: "resume e (t, s) = Some (t1, s1)" "completes e t \<longrightarrow> rank t1 < rank t"
    using closer [OF Cons.prems, of e] by blast
  have ok: "wf t1" "tame s s1" "balance s1 + pend t1 = balance s + pend t"
    using resume_Some [OF Cons.prems(1,2) step(1)] by auto
  have "stats_safe (sh_latency s1)" "sh_stop s1"
    using ok(2) Cons.prems(2,3) tame_safe by (auto simp: tame_def)
  from Cons.IH [OF ok(1) this] obtain t' s' where rest: "run_task resume es (t1, s1) = Some (t', s')"
    "completions resume completes es (t1, s1) + rank t' \<le> rank t1"
    "balance s' + pend t' = balance s1 + pend t1" "sh_rate s' = sh_rate s1" by blast
  moreover have "rank t1 \<le> rank t" "sh_rate s1 = sh_rate s" using stopped [OF Cons.prems(3) step(1)] by auto
  ultimately show ?case using step ok(3) by auto
qed simp

end

lemma record_latency_keeps:
  "record_latency us s = Some s' \<Longrightarrow> sh_rate s' = sh_rate s \<and> sh_stop s' = sh_stop s"
  by (auto simp: record_latency_def step_defs Let_def split: Option.bind_splits if_splits)

lemma rate_simps [simp]:
  "sh_rate (add_complete n s) = sh_rate s" "sh_rate (add_bytes n s) = sh_rate s"
  "sh_rate (inc_connect s) = sh_rate s" "sh_rate (inc_read s) = sh_rate s"
  "sh_rate (inc_write s) = sh_rate s" "sh_rate (inc_status s) = sh_rate s"
  "sh_rate (inc_timeout s) = sh_rate s"
  by (simp_all add: step_defs)

end
