(* ===== verification/Http_Lib.thy ===== *)
theory Http_Lib
  imports Counters Config
begin

text \<open>
  The crate \<open>http\<close> is not part of the sources: its functions are a parameter of the model, the
  record \<open>http_lib\<close>. \<open>'n\<close> is \<open>HeaderName\<close>, \<open>'v\<close> is \<open>HeaderValue\<close>, \<open>'m\<close> is \<open>HeaderMap\<close>; methods
  and URIs are kept as text with the test whether the crate parses them. \<open>header_map_laws\<close> is what
  its documentation says of a \<open>HeaderMap\<close>, a multimap with room for at most \<open>map_max\<close> entries: \<open>append\<close>
  adds an entry and \<open>insert\<close> replaces those of the same name; \<open>with_capacity\<close>, \<open>reserve\<close>, \<open>append\<close> and
  \<open>insert\<close> panic (\<open>None\<close>) when the map would have to be larger than that, and not as long as it need not.
\<close>

record ('n, 'v, 'm) http_lib =
  valid_method :: "string \<Rightarrow> bool"
  valid_uri :: "string \<Rightarrow> bool"
  static_name :: "string \<Rightarrow> 'n"
  static_value :: "string \<Rightarrow> 'v"
  name_from_bytes :: "string \<Rightarrow> 'n option"
  value_from_str :: "string \<Rightarrow> 'v option"
  value_from_usize :: "nat \<Rightarrow> 'v"
  name_len :: "'n \<Rightarrow> u64"
  value_len :: "'v \<Rightarrow> u64"
  map_max :: nat
  map_new :: 'm
  map_with_capacity :: "nat \<Rightarrow> 'm option"
  map_reserve :: "nat \<Rightarrow> 'm \<Rightarrow> 'm option"
  map_append :: "'n \<Rightarrow> 'v \<Rightarrow> 'm \<Rightarrow> 'm option"
  map_insert :: "'n \<Rightarrow> 'v \<Rightarrow> 'm \<Rightarrow> 'm option"
  map_iter :: "'m \<Rightarrow> ('n \<times> 'v) list"

definition header_map_laws :: "('n, 'v, 'm) http_lib \<Rightarrow> bool" where
  "header_map_laws H \<longleftrightarrow> map_iter H (map_new H) = [] \<and>
     (\<forall>k. map_with_capacity H k \<noteq> None \<longleftrightarrow> k \<le> map_max H) \<and>
     (\<forall>k m. map_with_capacity H k = Some m \<longrightarrow> map_iter H m = []) \<and>
     (\<forall>k m. map_iter H m = [] \<longrightarrow> (map_reserve H k m \<noteq> None \<longleftrightarrow> k \<le> map_max H)) \<and>
     (\<forall>k m m'. map_reserve H k m = Some m' \<longrightarrow> map_iter H m' = map_iter H m) \<and>
     (\<forall>n v m. length (map_iter H m) < map_max H \<longrightarrow> map_append H n v m \<noteq> None \<and> map_insert H n v m \<noteq> None) \<and>
     (\<forall>n v m m'. map_append H n v m = Some m' \<longrightarrow> mset (map_iter H m') = add_mset (n, v) (mset (map_iter H m))) \<and>
     (\<forall>n v m m'. map_insert H n v m = Some m' \<longrightarrow> mset (map_iter H m')
        = add_mset (n, v) {#(k, w) \<in># mset (map_iter H m). k \<noteq> n#})"

record 'm request =
  rq_method :: string
  rq_uri :: string
  rq_headers :: 'm
  rq_body :: string

text \<open>The static headers of the command line: pairs the crate rejects are skipped.\<close>

fun user_headers :: "('n, 'v, 'm) http_lib \<Rightarrow> (string \<times> string) list \<Rightarrow> ('n \<times> 'v) list" where
  "user_headers H [] = []"
| "user_headers H ((k, v) # hs) =
     (case (name_from_bytes H k, value_from_str H v) of
        (Some n, Some w) \<Rightarrow> (n, w) # user_headers H hs
      | _ \<Rightarrow> user_headers H hs)"

fun append_all :: "('n, 'v, 'm) http_lib \<Rightarrow> ('n \<times> 'v) list \<Rightarrow> 'm \<Rightarrow> 'm option" where
  "append_all H [] m = Some m"
| "append_all H ((n, v) # hs) m = do { m' \<leftarrow> map_append H n v m; append_all H hs m' }"

lemma length_user_headers: "length (user_headers H hs) \<le> length hs"
proof (induction hs)
  case (Cons h hs)
  then show ?case by (cases h) (auto split: option.splits)
qed simp

text \<open>What the laws say of the operations, one at a time.\<close>

lemma map_laws:
  assumes "header_map_laws H"
  shows "map_iter H (map_new H) = []" "map_with_capacity H k \<noteq> None \<longleftrightarrow> k \<le> map_max H"
    "map_with_capacity H k = Some m \<Longrightarrow> map_iter H m = []"
    "map_iter H m = [] \<Longrightarrow> map_reserve H k m \<noteq> None \<longleftrightarrow> k \<le> map_max H"
    "map_reserve H k m = Some m' \<Longrightarrow> map_iter H m' = map_iter H m"
    "length (map_iter H m) < map_max H \<Longrightarrow> map_append H n v m \<noteq> None"
    "length (map_iter H m) < map_max H \<Longrightarrow> map_insert H n v m \<noteq> None"
    "map_append H n v m = Some m' \<Longrightarrow> mset (map_iter H m') = add_mset (n, v) (mset (map_iter H m))"
    "map_insert H n v m = Some m' \<Longrightarrow>
      mset (map_iter H m') = add_mset (n, v) {#(k, w) \<in># mset (map_iter H m). k \<noteq> n#}"
  using assms unfolding header_map_laws_def by blast+

lemma iter_append_all:
  assumes "header_map_laws H"
  shows "append_all H hs m = Some m' \<Longrightarrow> mset (map_iter H m') = mset (map_iter H m) + mset hs"
proof (induction hs arbitrary: m)
  case (Cons h hs)
  obtain n v where h: "h = (n, v)" by (cases h)
  then obtain m1 where m1: "map_append H n v m = Some m1" "append_all H hs m1 = Some m'"
    using Cons.prems by (auto split: Option.bind_splits)
  from Cons.IH [OF m1(2)] map_laws(8) [OF assms m1(1)] h show ?case by simp
qed simp

lemma length_append:
  "header_map_laws H \<Longrightarrow> map_append H n v m = Some m' \<Longrightarrow> length (map_iter H m') = Suc (length (map_iter H m))"
  using map_laws(8) [of H n v m m'] by (metis size_add_mset size_mset)

lemma append_all_fits:
  assumes "header_map_laws H"
  shows "length (map_iter H m) + length hs \<le> map_max H \<Longrightarrow> append_all H hs m \<noteq> None"
proof (induction hs arbitrary: m)
  case (Cons h hs)
  obtain n v where h: "h = (n, v)" by (cases h)
  obtain m1 where m1: "map_append H n v m = Some m1"
    using map_laws(6) [OF assms, of m n v] Cons.prems by auto
  with Cons.IH [of m1] Cons.prems length_append [OF assms m1] h show ?case by simp
qed simp

definition run_method :: "('n, 'v, 'm) http_lib \<Rightarrow> config \<Rightarrow> string" where
  "run_method H c = (if valid_method H (cfg_method c) then cfg_method c else ''GET'')"

text \<open>The bytes of the status line and the headers, as \<open>estimate_response_bytes\<close> counts them.\<close>

fun header_bytes_loop :: "('n, 'v, 'm) http_lib \<Rightarrow> ('n \<times> 'v) list \<Rightarrow> u64 \<Rightarrow> u64" where
  "header_bytes_loop H [] n = n"
| "header_bytes_loop H ((k, v) # hs) n = header_bytes_loop H hs (n + (name_len H k + 2 + value_len H v + 2))"

definition estimate_response_bytes :: "('n, 'v, 'm) http_lib \<Rightarrow> u16 \<Rightarrow> 'm \<Rightarrow> u64" where
  "estimate_response_bytes H status m = header_bytes_loop H (map_iter H m) 16 + 2"

section \<open>Draining a body\<close>

text \<open>
  What polling the body for its next frame answers: a data frame with its number of bytes, a
  trailers frame, the end, an error, or nothing yet. \<open>drain_poll\<close> is \<open>DrainBody::poll\<close> on the
  answers it gets, with the bytes counted so far.
\<close>

datatype frame_poll = Data u64 | Trailers | End | Failed | Wait

datatype drained = Ready_Ok u64 | Ready_Err | Pending u64

fun drain_poll :: "frame_poll list \<Rightarrow> u64 \<Rightarrow> drained" where
  "drain_poll [] n = Pending n"
| "drain_poll (Data k # fs) n = drain_poll fs (n + k)"
| "drain_poll (Trailers # fs) n = drain_poll fs n"
| "drain_poll (End # fs) n = Ready_Ok n"
| "drain_poll (Failed # fs) n = Ready_Err"
| "drain_poll (Wait # fs) n = Pending n"

fun frame_bytes :: "frame_poll \<Rightarrow> u64" where
  "frame_bytes (Data k) = k"
| "frame_bytes _ = 0"

definition is_frame :: "frame_poll \<Rightarrow> bool" where
  "is_frame f \<longleftrightarrow> f \<noteq> End \<and> f \<noteq> Failed \<and> f \<noteq> Wait"

lemma drain_poll_frames:
  "list_all is_frame fs \<Longrightarrow> drain_poll (fs @ gs) n = drain_poll gs (n + (\<Sum>f\<leftarrow>fs. frame_bytes f))"
proof (induction fs arbitrary: n)
  case (Cons f fs)
  then show ?case by (cases f) (simp_all add: is_frame_def add.assoc)
qed simp

end
