(* ===== verification/Connection.thy ===== *)
theory Connection
  imports Http_Lib Transport
begin

text \<open>
  The component \<open>src/connection.rs\<close>: one HTTP/1.1 connection. \<open>run_connection\<close> is an async function,
  so a task is a state machine whose states are its awaits; \<open>h1_resume\<close> runs the code from one
  await to the next when the awaited operation has completed. What the network answers is the event.
  An event that does not belong to the await is a poll that finds nothing ready and changes nothing.
  \<open>None\<close> is a panic.
\<close>

section \<open>Requests\<close>

definition h1_static_headers :: "('n, 'v, 'm) http_lib \<Rightarrow> config \<Rightarrow> ('n \<times> 'v) list option" where
  "h1_static_headers H c = do {
     host \<leftarrow> value_from_str H (host_header c);
     Some ([(static_name H ''host'', host), (static_name H ''user-agent'', static_value H ''wrk-rs/0.1.0'')]
       @ user_headers H (cfg_headers c))
   }"

definition build_request ::
    "('n, 'v, 'm) http_lib \<Rightarrow> string \<Rightarrow> string \<Rightarrow> ('n \<times> 'v) list \<Rightarrow> nat \<Rightarrow> string \<Rightarrow> 'm request option" where
  "build_request H meth path headers n body =
     (let body_len = length body in
      if \<not> valid_uri H path then None
      else do {
        m \<leftarrow> map_reserve H n (map_new H);
        m \<leftarrow> append_all H headers m;
        m \<leftarrow> (if 0 < body_len
              then map_insert H (static_name H ''content-length'') (value_from_usize H body_len) m
              else Some m);
        Some \<lparr>rq_method = meth, rq_uri = path, rq_headers = m, rq_body = body\<rparr>
      })"

text \<open>The number of headers of a request, for which the map reserves room.\<close>

definition n_headers :: "('n \<times> 'v) list \<Rightarrow> string \<Rightarrow> nat" where
  "n_headers static_headers body = length static_headers + (if 0 < length body then 1 else 0)"

definition h1_request :: "('n, 'v, 'm) http_lib \<Rightarrow> config \<Rightarrow> 'm request option" where
  "h1_request H c = do {
     headers \<leftarrow> h1_static_headers H c;
     build_request H (run_method H c) (cfg_path c) headers (n_headers headers (cfg_body c)) (cfg_body c)
   }"

text \<open>Exactly when a request can be built.\<close>

lemma h1_request_None:
  assumes "header_map_laws H"
  shows "h1_request H c = None \<longleftrightarrow> value_from_str H (host_header c) = None \<or> \<not> valid_uri H (cfg_path c) \<or>
    map_max H < length (user_headers H (cfg_headers c)) + 2 + (if cfg_body c = [] then 0 else 1)"
proof (cases "value_from_str H (host_header c) = None \<or> \<not> valid_uri H (cfg_path c)")
  case True
  then show ?thesis by (auto simp: h1_request_def h1_static_headers_def build_request_def Let_def)
next
  case False
  then obtain host where host: "value_from_str H (host_header c) = Some host" by auto
  let ?hs = "(static_name H ''host'', host) # (static_name H ''user-agent'', static_value H ''wrk-rs/0.1.0'')
    # user_headers H (cfg_headers c)"
  let ?n = "length (user_headers H (cfg_headers c)) + 2 + (if cfg_body c = [] then 0 else 1)"
  have eq: "h1_request H c = build_request H (run_method H c) (cfg_path c) ?hs ?n (cfg_body c)"
    using host by (simp add: h1_request_def h1_static_headers_def n_headers_def)
  note new = map_laws(1) [OF assms]
  show ?thesis
  proof (cases "map_reserve H ?n (map_new H)")
    case None
    then show ?thesis using map_laws(4) [OF assms new, of ?n] False eq by (auto simp: build_request_def Let_def)
  next
    case (Some m)
    then have n: "?n \<le> map_max H" using map_laws(4) [OF assms new, of ?n] by auto
    have m: "map_iter H m = []" using map_laws(5) [OF assms Some] new by simp
    then obtain m1 where m1: "append_all H ?hs m = Some m1"
      using append_all_fits [OF assms, of m ?hs] n by (auto simp del: append_all.simps split: if_splits)
    have "length (map_iter H m1) = length ?hs"
      using iter_append_all [OF assms m1] m by (metis add_0 mset.simps(1) size_mset)
    then have "cfg_body c \<noteq> [] \<Longrightarrow>
        \<exists>m2. map_insert H (static_name H ''content-length'') (value_from_usize H (length (cfg_body c))) m1 = Some m2"
      using map_laws(7) [OF assms, of m1] n by simp
    then have "h1_request H c \<noteq> None" using False Some m1
      unfolding eq build_request_def Let_def by (auto simp del: append_all.simps)
    then show ?thesis using False n by auto
  qed
qed

section \<open>The task\<close>

datatype 'm h1 =
    H1_Start
  | H1_Connecting
  | H1_Sleeping
  | H1_Handshaking
  | H1_Sending u64 nat "'m request"
  | H1_Draining u64 nat u16 'm u64
  | H1_Done

datatype 'm h1_event =
    Ev_Run
  | Ev_Connect bool bool
  | Ev_Timer
  | Ev_Handshake bool
  | Ev_Response "(u16 \<times> 'm) option"
  | Ev_Body "frame_poll list"

record ('n, 'v, 'm) job =
  j_lib :: "('n, 'v, 'm) http_lib"
  j_cfg :: config
  j_tls :: bool
  j_sni :: bool

text \<open>
  \<open>connect\<close> on what the network answers: the TCP connect succeeds or not, and so does the TLS
  handshake. The tokens \<open>()\<close> stand for the streams, which the task hands on to hyper.
\<close>

definition h1_connect :: "('n, 'v, 'm) job \<Rightarrow> bool \<Rightarrow> bool \<Rightarrow> (unit, unit) transport option" where
  "h1_connect J tcp hs = connect (j_cfg J)
     (if j_tls J then Some (\<lambda>_ _. if hs then Some () else None) else None)
     (if j_sni J then Some () else None) (\<lambda>_. if tcp then Some () else None)"

text \<open>The head of the outer loop, and the head of the request loop with its local count.\<close>

definition h1_top :: "shared \<Rightarrow> ('m h1 \<times> shared) option" where
  [step_defs]: "h1_top s = Some (if sh_stop s then H1_Done else H1_Connecting, s)"

definition h1_next :: "('n, 'v, 'm) job \<Rightarrow> u64 \<Rightarrow> shared \<Rightarrow> ('m h1 \<times> shared) option" where
  [step_defs]: "h1_next J local s =
     (if sh_stop s then Some (H1_Done, add_complete local s)
      else do {
        req \<leftarrow> h1_request (j_lib J) (j_cfg J);
        Some (H1_Sending local (sh_now s) req, inc_rate s)
      })"

text \<open>A response has been read in full: account for it, and go on or reconnect.\<close>

definition h1_respond ::
    "('n, 'v, 'm) job \<Rightarrow> u64 \<Rightarrow> nat \<Rightarrow> u16 \<Rightarrow> 'm \<Rightarrow> u64 \<Rightarrow> shared \<Rightarrow> ('m h1 \<times> shared) option" where
  [step_defs]: "h1_respond J local start status headers body_bytes s =
     (let s1 = add_bytes (estimate_response_bytes (j_lib J) status headers + body_bytes) s;
          elapsed = sh_now s1 - start;
          elapsed_us = as_micros_u64 elapsed;
          local = local + 1;
          s2 = (if 399 < status then inc_status s1 else s1)
      in if from_millis (cfg_timeout (j_cfg J)) < elapsed
         then h1_top (add_complete local (inc_timeout s2))
         else do { s3 \<leftarrow> record_latency elapsed_us s2; h1_next J local s3 })"

fun h1_resume :: "('n, 'v, 'm) job \<Rightarrow> 'm h1_event \<Rightarrow> 'm h1 \<times> shared \<Rightarrow> ('m h1 \<times> shared) option" where
  "h1_resume J Ev_Run (H1_Start, s) =
     (case h1_static_headers (j_lib J) (j_cfg J) of None \<Rightarrow> None | Some _ \<Rightarrow> h1_top s)"
| "h1_resume J (Ev_Connect tcp hs) (H1_Connecting, s) =
     (case h1_connect J tcp hs of
        Some _ \<Rightarrow> Some (H1_Handshaking, s)
      | None \<Rightarrow> Some (H1_Sleeping, inc_connect s))"
| "h1_resume J Ev_Timer (H1_Sleeping, s) = h1_top s"
| "h1_resume J (Ev_Handshake ok) (H1_Handshaking, s) =
     (if ok then h1_next J 0 s else h1_top (inc_connect s))"
| "h1_resume J (Ev_Response None) (H1_Sending local start req, s) =
     h1_top (add_complete local (inc_write s))"
| "h1_resume J (Ev_Response (Some (status, headers))) (H1_Sending local start req, s) =
     Some (H1_Draining local start status headers 0, s)"
| "h1_resume J (Ev_Body fs) (H1_Draining local start status headers n, s) =
     (case drain_poll fs n of
        Pending k \<Rightarrow> Some (H1_Draining local start status headers k, s)
      | Ready_Err \<Rightarrow> h1_top (add_complete local (inc_read s))
      | Ready_Ok k \<Rightarrow> h1_respond J local start status headers k s)"
| "h1_resume J e (t, s) = Some (t, s)"

section \<open>The contract\<close>

fun h1_pend :: "'m h1 \<Rightarrow> u64" where
  "h1_pend (H1_Sending local start req) = local"
| "h1_pend (H1_Draining local start status headers n) = local"
| "h1_pend _ = 0"

text \<open>A request in flight is the one the configuration builds, so the build cannot panic later.\<close>

fun h1_wf :: "('n, 'v, 'm) job \<Rightarrow> 'm h1 \<Rightarrow> bool" where
  "h1_wf J (H1_Sending local start req) = (h1_request (j_lib J) (j_cfg J) = Some req)"
| "h1_wf J (H1_Draining local start status headers n) = (h1_request (j_lib J) (j_cfg J) \<noteq> None)"
| "h1_wf J _ = True"

lemma h1_top_ok:
  "h1_top s = Some (t', s') \<Longrightarrow> h1_wf J t' \<and> s' = s \<and> h1_pend t' = 0"
  by (auto simp: h1_top_def split: if_splits)

lemma h1_next_ok:
  "h1_next J l s = Some (t', s') \<Longrightarrow>
    h1_wf J t' \<and> tame s s' \<and> balance s' + h1_pend t' = balance s + l"
  by (auto simp: h1_next_def intro!: tame_refl split: if_splits Option.bind_splits)

lemma h1_next_None: "h1_next J l s = None \<Longrightarrow> h1_request (j_lib J) (j_cfg J) = None"
  by (auto simp: h1_next_def split: if_splits Option.bind_splits)

text \<open>What a response does before the figures of its time are known.\<close>

lemma h1_respond_parts:
  obtains s2 where "sh_latency s2 = sh_latency s" "sh_stop s2 = sh_stop s" "sh_now s2 = sh_now s" "balance s2 = balance s"
    "h1_respond J l start st hs n s =
      (if from_millis (cfg_timeout (j_cfg J)) < sh_now s - start
       then h1_top (add_complete (l + 1) (inc_timeout s2))
       else do { s3 \<leftarrow> record_latency (as_micros_u64 (sh_now s - start)) s2; h1_next J (l + 1) s3 })"
proof -
  define s2 where "s2 = (let s1 = add_bytes (estimate_response_bytes (j_lib J) st hs + n) s
    in if 399 < st then inc_status s1 else s1)"
  have "sh_latency s2 = sh_latency s" "sh_stop s2 = sh_stop s" "sh_now s2 = sh_now s" "balance s2 = balance s"
    by (simp_all add: s2_def Let_def)
  then show ?thesis by (rule that) (simp add: h1_respond_def s2_def Let_def)
qed

lemma h1_respond_ok:
  assumes "stats_safe (sh_latency s)" "h1_request (j_lib J) (j_cfg J) \<noteq> None"
  shows "\<exists>t' s'. h1_respond J l start st hs n s = Some (t', s') \<and> h1_wf J t' \<and> tame s s'
    \<and> balance s' + h1_pend t' = balance s + l"
proof -
  obtain s2 where s2: "sh_latency s2 = sh_latency s" "sh_stop s2 = sh_stop s" "sh_now s2 = sh_now s" "balance s2 = balance s"
    and eq: "h1_respond J l start st hs n s =
      (if from_millis (cfg_timeout (j_cfg J)) < sh_now s - start
       then h1_top (add_complete (l + 1) (inc_timeout s2))
       else do { s3 \<leftarrow> record_latency (as_micros_u64 (sh_now s - start)) s2; h1_next J (l + 1) s3 })"
    by (rule h1_respond_parts)
  obtain s3 where s3: "record_latency (as_micros_u64 (sh_now s - start)) s2 = Some s3" "tame s2 s3"
    "balance s3 = balance s2 - 1"
    using record_latency_Some [of s2] assms(1) s2(1) by auto
  have tame2: "tame s s2" using s2 by (intro tame_refl) simp_all
  show ?thesis
  proof (cases "from_millis (cfg_timeout (j_cfg J)) < sh_now s - start")
    case True
    have "tame s (add_complete (l + 1) (inc_timeout s2))" using s2 by (intro tame_refl) simp_all
    with True eq s2 show ?thesis by (auto simp: h1_top_def)
  next
    case False
    obtain t' s' where next': "h1_next J (l + 1) s3 = Some (t', s')"
      using h1_next_None [of J "l + 1" s3] assms(2) by (cases "h1_next J (l + 1) s3") auto
    from h1_next_ok [OF this] s3 s2(4) tame2 show ?thesis
      unfolding eq using False next' by (auto intro: tame_trans)
  qed
qed

lemma h1_resume_Some:
  assumes "h1_resume J e (t, s) = Some (t', s')" "h1_wf J t" "stats_safe (sh_latency s)"
  shows "h1_wf J t' \<and> tame s s' \<and> balance s' + h1_pend t' = balance s + h1_pend t"
  using assms
proof (induction J e "(t, s)" arbitrary: t s rule: h1_resume.induct)
  case (4 J ok s)
  then show ?case
    by (auto dest!: h1_next_ok h1_top_ok split: if_splits intro!: tame_refl)
next
  case (7 J fs local start status headers n s)
  then show ?case
  proof (cases "drain_poll fs n")
    case (Ready_Ok k)
    with 7 show ?thesis using h1_respond_ok [of s J local start status headers k] by auto
  qed (auto dest!: h1_top_ok intro!: tame_refl)
qed (auto dest!: h1_top_ok intro!: tame_refl split: option.splits)

lemma h1_resume_None:
  assumes "h1_resume J e (t, s) = None" "h1_wf J t" "stats_safe (sh_latency s)"
  shows "h1_request (j_lib J) (j_cfg J) = None"
  using assms
proof (induction J e "(t, s)" arbitrary: t s rule: h1_resume.induct)
  case (7 J fs local start status headers n s)
  then show ?case
  proof (cases "drain_poll fs n")
    case (Ready_Ok k)
    with 7 show ?thesis using h1_respond_ok [of s J local start status headers k] by auto
  qed (auto simp: h1_top_def)
qed (auto simp: h1_top_def h1_request_def dest: h1_next_None split: option.splits if_splits)

interpretation h1: bench_task "h1_resume J" h1_pend "h1_wf J" "h1_request (j_lib J) (j_cfg J) \<noteq> None" for J
  by unfold_locales ((use h1_resume_Some in blast), (simp add: h1_resume_None))

section \<open>Winding down\<close>

lemma h1_stopped_next:
  assumes "sh_stop s"
  shows "h1_top s = Some (H1_Done, s)" "h1_next J l s = Some (H1_Done, add_complete l s)"
  using assms by (simp_all add: h1_top_def h1_next_def)

lemma h1_stopped_respond:
  "h1_respond J l start st hs n s = Some (t', s') \<Longrightarrow> sh_stop s \<Longrightarrow> t' = H1_Done \<and> sh_rate s' = sh_rate s"
  by (auto simp: h1_respond_def Let_def h1_stopped_next dest!: record_latency_keeps
      split: if_splits Option.bind_splits)

fun h1_rank :: "'m h1 \<Rightarrow> nat" where
  "h1_rank H1_Start = 1"
| "h1_rank H1_Connecting = 2"
| "h1_rank H1_Sleeping = 1"
| "h1_rank H1_Handshaking = 1"
| "h1_rank (H1_Sending local start req) = 2"
| "h1_rank (H1_Draining local start status headers n) = 1"
| "h1_rank H1_Done = 0"

lemma h1_rank_le: "h1_rank t \<le> 2"
  by (cases t) simp_all

lemma h1_stopped:
  "h1_resume J e (t, s) = Some (t', s') \<Longrightarrow> sh_stop s \<Longrightarrow> h1_rank t' \<le> h1_rank t \<and> sh_rate s' = sh_rate s"
  by (induction J e "(t, s)" arbitrary: t s rule: h1_resume.induct)
     (auto simp: h1_stopped_next dest!: h1_stopped_respond [rotated] split: if_splits option.splits drained.splits)

text \<open>The events that complete what a task awaits; a poll that leaves the body unfinished does not.\<close>

fun h1_completes :: "'m h1_event \<Rightarrow> 'm h1 \<Rightarrow> bool" where
  "h1_completes Ev_Run H1_Start = True"
| "h1_completes (Ev_Connect tcp hs) H1_Connecting = True"
| "h1_completes Ev_Timer H1_Sleeping = True"
| "h1_completes (Ev_Handshake ok) H1_Handshaking = True"
| "h1_completes (Ev_Response r) (H1_Sending local start req) = True"
| "h1_completes (Ev_Body fs) (H1_Draining local start status headers n) = (\<forall>k. drain_poll fs n \<noteq> Pending k)"
| "h1_completes e t = False"

lemma h1_stopped_respond_Some:
  assumes "stats_safe (sh_latency s)" "sh_stop s"
  shows "\<exists>t' s'. h1_respond J l start st hs n s = Some (t', s') \<and> h1_rank t' = 0"
proof -
  obtain s2 where s2: "sh_latency s2 = sh_latency s" "sh_stop s2 = sh_stop s"
    and eq: "h1_respond J l start st hs n s =
      (if from_millis (cfg_timeout (j_cfg J)) < sh_now s - start
       then h1_top (add_complete (l + 1) (inc_timeout s2))
       else do { s3 \<leftarrow> record_latency (as_micros_u64 (sh_now s - start)) s2; h1_next J (l + 1) s3 })"
    by (rule h1_respond_parts [of s J l start st hs n])
  obtain s3 where s3: "record_latency (as_micros_u64 (sh_now s - start)) s2 = Some s3"
    using record_latency_Some [of s2] assms(1) s2(1) by auto
  with assms(2) s2(2) have "sh_stop s3" using record_latency_keeps by metis
  with s3 s2(2) assms(2) show ?thesis unfolding eq by (simp add: h1_stopped_next)
qed

lemma h1_closer:
  assumes "stats_safe (sh_latency s)" "sh_stop s" "h1_static_headers (j_lib J) (j_cfg J) \<noteq> None"
  shows "\<exists>t' s'. h1_resume J e (t, s) = Some (t', s') \<and> (h1_completes e t \<longrightarrow> h1_rank t' < h1_rank t)"
  using assms
proof (induction J e "(t, s)" arbitrary: t s rule: h1_resume.induct)
  case (7 J fs local start status headers n s)
  then show ?case
    using h1_stopped_respond_Some [of s J local start status headers]
    by (cases "drain_poll fs n") (auto simp: h1_stopped_next)
qed (auto simp: h1_stopped_next split: option.splits)

lemma h1_awaits:
  assumes "t \<noteq> H1_Done"
  shows "\<exists>e. h1_completes e t"
proof (cases t)
  case (H1_Draining l start st hs n)
  then have "h1_completes (Ev_Body [End]) t" by simp
  then show ?thesis by blast
qed (use assms h1_completes.simps(1-5) in blast)+

text \<open>A task whose host name makes a header: its first step cannot panic.\<close>

definition h1_ready :: "('n, 'v, 'm) job \<Rightarrow> 'm h1 \<Rightarrow> bool" where
  "h1_ready J t \<longleftrightarrow> h1_wf J t \<and> h1_static_headers (j_lib J) (j_cfg J) \<noteq> None"

interpretation h1_wind: winding_task "h1_resume J" h1_pend "h1_ready J" "h1_request (j_lib J) (j_cfg J) \<noteq> None"
    h1_rank h1_completes for J
proof unfold_locales
  show "h1_ready J t \<Longrightarrow> stats_safe (sh_latency s) \<Longrightarrow> h1_resume J e (t, s) = Some (t', s') \<Longrightarrow>
      h1_ready J t' \<and> tame s s' \<and> balance s' + h1_pend t' = balance s + h1_pend t" for t s e t' s'
    using h1.resume_Some unfolding h1_ready_def by blast
  show "h1_ready J t \<Longrightarrow> stats_safe (sh_latency s) \<Longrightarrow> h1_resume J e (t, s) = None \<Longrightarrow>
      \<not> h1_request (j_lib J) (j_cfg J) \<noteq> None" for t s e
    using h1.resume_None unfolding h1_ready_def by blast
  show "h1_ready J t \<Longrightarrow> stats_safe (sh_latency s) \<Longrightarrow> sh_stop s \<Longrightarrow>
      \<exists>t' s'. h1_resume J e (t, s) = Some (t', s') \<and> (h1_completes e t \<longrightarrow> h1_rank t' < h1_rank t)" for t s e
    using h1_closer unfolding h1_ready_def by blast
  show "0 < h1_rank t \<Longrightarrow> \<exists>e. h1_completes e t" for t :: "'c h1"
    by (intro h1_awaits) auto
  show "h1_rank t = 0 \<Longrightarrow> h1_pend t = 0" for t :: "'c h1" by (cases t) simp_all
qed (use h1_stopped in blast)+

end
