(* ===== verification/H2.thy ===== *)
theory H2
  imports Connection
begin

text \<open>
  The component \<open>src/h2.rs\<close>: one HTTP/2 connection and its \<open>--streams\<close> stream tasks. A stream task
  and the connection task are state machines over their awaits, as in \<open>Connection\<close>; the connection
  holds the states of the streams it spawned and waits until all of them are done.
\<close>

section \<open>Requests\<close>

definition full_uri :: "('n, 'v, 'm) http_lib \<Rightarrow> config \<Rightarrow> string" where
  "full_uri H c = (let u = ''https://'' @ host_header c @ cfg_path c
                   in if valid_uri H u then u else ''https://localhost/'')"

definition h2_static_headers :: "('n, 'v, 'm) http_lib \<Rightarrow> config \<Rightarrow> 'm option" where
  "h2_static_headers H c = do {
     m \<leftarrow> map_with_capacity H (length (cfg_headers c) + 2);
     m \<leftarrow> map_insert H (static_name H ''user-agent'') (static_value H ''wrk-rs/0.1.0'') m;
     append_all H (user_headers H (cfg_headers c)) m
   }"

text \<open>A header that does not fit makes the builder fail, which \<open>expect\<close> turns into a panic.\<close>

definition build_h2_request :: "('n, 'v, 'm) http_lib \<Rightarrow> string \<Rightarrow> string \<Rightarrow> 'm \<Rightarrow> string \<Rightarrow> 'm request option" where
  "build_h2_request H meth uri headers body = do {
     let body_len = length body;
     m \<leftarrow> append_all H (map_iter H headers) (map_new H);
     m \<leftarrow> (if 0 < body_len
           then map_append H (static_name H ''content-length'') (value_from_usize H body_len) m
           else Some m);
     Some \<lparr>rq_method = meth, rq_uri = uri, rq_headers = m, rq_body = body\<rparr>
   }"

definition h2_request :: "('n, 'v, 'm) http_lib \<Rightarrow> config \<Rightarrow> 'm request option" where
  "h2_request H c = do {
     headers \<leftarrow> h2_static_headers H c;
     build_h2_request H (run_method H c) (full_uri H c) headers (cfg_body c)
   }"

lemma h2_static_headers_iter:
  assumes "header_map_laws H" "h2_static_headers H c = Some m"
  shows "mset (map_iter H m) = mset ((static_name H ''user-agent'', static_value H ''wrk-rs/0.1.0'')
    # user_headers H (cfg_headers c))"
proof -
  obtain m0 m1 where parts: "map_with_capacity H (length (cfg_headers c) + 2) = Some m0"
    "map_insert H (static_name H ''user-agent'') (static_value H ''wrk-rs/0.1.0'') m0 = Some m1"
    "append_all H (user_headers H (cfg_headers c)) m1 = Some m"
    using assms(2) by (auto simp: h2_static_headers_def split: Option.bind_splits)
  show ?thesis
    using iter_append_all [OF assms(1) parts(3)] map_laws(9) [OF assms(1) parts(2)] map_laws(3) [OF assms(1) parts(1)]
    by simp
qed

lemma h2_static_headers_None:
  assumes "header_map_laws H"
  shows "h2_static_headers H c = None \<longleftrightarrow> map_max H < length (cfg_headers c) + 2"
proof (cases "map_with_capacity H (length (cfg_headers c) + 2)")
  case None
  then show ?thesis
    using map_laws(2) [OF assms, of "length (cfg_headers c) + 2"] by (auto simp: h2_static_headers_def)
next
  case (Some m)
  then have n: "length (cfg_headers c) + 2 \<le> map_max H" "map_iter H m = []"
    using map_laws(2,3) [OF assms] by auto
  then obtain m1 where m1: "map_insert H (static_name H ''user-agent'') (static_value H ''wrk-rs/0.1.0'') m = Some m1"
    using map_laws(7) [OF assms, of m] by auto
  have "size (mset (map_iter H m1)) = 1" using map_laws(9) [OF assms m1] n(2) by simp
  then have "append_all H (user_headers H (cfg_headers c)) m1 \<noteq> None"
    using n(1) length_user_headers [of H "cfg_headers c"] by (intro append_all_fits [OF assms]) simp
  then show ?thesis using Some m1 n(1) by (simp add: h2_static_headers_def)
qed

text \<open>Exactly when a request can be built; the headers of the static map always fit once more.\<close>

lemma static_headers_fit:
  assumes "header_map_laws H" "h2_static_headers H c = Some m"
  obtains m1 where "append_all H (map_iter H m) (map_new H) = Some m1" "length (map_iter H m1) < map_max H"
proof -
  have "size (mset (map_iter H m)) = Suc (length (user_headers H (cfg_headers c)))"
    unfolding h2_static_headers_iter [OF assms] by simp
  then have n: "length (map_iter H m) < map_max H"
    using h2_static_headers_None [OF assms(1), of c] assms(2) length_user_headers [of H "cfg_headers c"] by auto
  then obtain m1 where m1: "append_all H (map_iter H m) (map_new H) = Some m1"
    using append_all_fits [OF assms(1), of "map_new H" "map_iter H m"] map_laws(1) [OF assms(1)] by auto
  from iter_append_all [OF assms(1) m1] have "size (mset (map_iter H m1)) = size (mset (map_iter H m))"
    using map_laws(1) [OF assms(1)] by simp
  then have "length (map_iter H m1) < map_max H" using n by simp
  with m1 show ?thesis by (rule that)
qed

lemma h2_request_None:
  assumes "header_map_laws H"
  shows "h2_request H c = None \<longleftrightarrow> map_max H < length (cfg_headers c) + 2"
proof (cases "h2_static_headers H c")
  case None
  then show ?thesis using h2_static_headers_None [OF assms, of c] by (simp add: h2_request_def)
next
  case (Some m)
  then obtain m1 where "append_all H (map_iter H m) (map_new H) = Some m1" "length (map_iter H m1) < map_max H"
    by (rule static_headers_fit [OF assms])
  moreover from map_laws(6) [OF assms this(2)] obtain m2 where
    "map_append H (static_name H ''content-length'') (value_from_usize H (length (cfg_body c))) m1 = Some m2" by blast
  ultimately have "h2_request H c \<noteq> None"
    using Some by (simp add: h2_request_def build_h2_request_def Let_def)
  then show ?thesis using Some h2_static_headers_None [OF assms, of c] by auto
qed

section \<open>A stream\<close>

datatype 'm h2_stream =
    S2_Ready
  | S2_Sending u64 nat "'m request"
  | S2_Draining u64 nat u16 'm u64
  | S2_Done

datatype 'm h2_stream_event = S2_Run | S2_Response "(u16 \<times> 'm) option" | S2_Body "frame_poll list"

definition h2_next :: "('n, 'v, 'm) job \<Rightarrow> u64 \<Rightarrow> shared \<Rightarrow> ('m h2_stream \<times> shared) option" where
  "h2_next J local s =
     (if sh_stop s then Some (S2_Done, add_complete local s)
      else do {
        req \<leftarrow> h2_request (j_lib J) (j_cfg J);
        Some (S2_Sending local (sh_now s) req, inc_rate s)
      })"

definition h2_respond ::
    "('n, 'v, 'm) job \<Rightarrow> u64 \<Rightarrow> nat \<Rightarrow> u16 \<Rightarrow> 'm \<Rightarrow> u64 \<Rightarrow> shared \<Rightarrow> ('m h2_stream \<times> shared) option" where
  "h2_respond J local start status headers body_bytes s =
     (let s1 = add_bytes (estimate_response_bytes (j_lib J) status headers + body_bytes) s;
          elapsed = sh_now s1 - start;
          elapsed_us = as_micros_u64 elapsed;
          local = local + 1;
          s2 = (if 399 < status then inc_status s1 else s1)
      in if from_millis (cfg_timeout (j_cfg J)) < elapsed
         then Some (S2_Done, add_complete local (inc_timeout s2))
         else do { s3 \<leftarrow> record_latency elapsed_us s2; h2_next J local s3 })"

fun h2_stream_resume ::
    "('n, 'v, 'm) job \<Rightarrow> 'm h2_stream_event \<Rightarrow> 'm h2_stream \<times> shared \<Rightarrow> ('m h2_stream \<times> shared) option" where
  "h2_stream_resume J S2_Run (S2_Ready, s) = h2_next J 0 s"
| "h2_stream_resume J (S2_Response None) (S2_Sending local start req, s) =
     Some (S2_Done, add_complete local (inc_write s))"
| "h2_stream_resume J (S2_Response (Some (status, headers))) (S2_Sending local start req, s) =
     Some (S2_Draining local start status headers 0, s)"
| "h2_stream_resume J (S2_Body fs) (S2_Draining local start status headers n, s) =
     (case drain_poll fs n of
        Pending k \<Rightarrow> Some (S2_Draining local start status headers k, s)
      | Ready_Err \<Rightarrow> Some (S2_Done, add_complete local (inc_read s))
      | Ready_Ok k \<Rightarrow> h2_respond J local start status headers k s)"
| "h2_stream_resume J e (t, s) = Some (t, s)"

section \<open>The connection\<close>

datatype 'm h2 =
    H2_Start
  | H2_Tcp
  | H2_Sleeping
  | H2_Tls
  | H2_Handshaking
  | H2_Streams "'m h2_stream list"
  | H2_Done

datatype 'm h2_event =
    C2_Run
  | C2_Tcp bool
  | C2_Timer
  | C2_Tls bool
  | C2_Handshake bool
  | C2_Stream nat "'m h2_stream_event"
  | C2_Join

definition h2_top :: "shared \<Rightarrow> 'm h2 \<times> shared" where
  "h2_top s = (if sh_stop s then H2_Done else H2_Tcp, s)"

definition h2_spawn :: "config \<Rightarrow> 'm h2_stream list" where
  "h2_spawn c = replicate (unat (cfg_streams_per_conn c)) S2_Ready"

fun h2_resume :: "('n, 'v, 'm) job \<Rightarrow> 'm h2_event \<Rightarrow> 'm h2 \<times> shared \<Rightarrow> ('m h2 \<times> shared) option" where
  "h2_resume J C2_Run (H2_Start, s) =
     (case h2_static_headers (j_lib J) (j_cfg J) of None \<Rightarrow> None | Some _ \<Rightarrow> Some (h2_top s))"
| "h2_resume J (C2_Tcp ok) (H2_Tcp, s) = Some (if ok then (H2_Tls, s) else (H2_Sleeping, inc_connect s))"
| "h2_resume J C2_Timer (H2_Sleeping, s) = Some (h2_top s)"
| "h2_resume J (C2_Tls ok) (H2_Tls, s) = Some (if ok then (H2_Handshaking, s) else h2_top (inc_connect s))"
| "h2_resume J (C2_Handshake ok) (H2_Handshaking, s) =
     Some (if ok then (H2_Streams (h2_spawn (j_cfg J)), s) else h2_top (inc_connect s))"
| "h2_resume J (C2_Stream i e) (H2_Streams ss, s) =
     (if i < length ss
      then (case h2_stream_resume J e (ss ! i, s) of
              Some (st, s') \<Rightarrow> Some (H2_Streams (ss[i := st]), s')
            | None \<Rightarrow> None)
      else Some (H2_Streams ss, s))"
| "h2_resume J C2_Join (H2_Streams ss, s) =
     Some (if list_all (\<lambda>t. t = S2_Done) ss then h2_top s else (H2_Streams ss, s))"
| "h2_resume J e (t, s) = Some (t, s)"

section \<open>The contract\<close>

fun s2_pend :: "'m h2_stream \<Rightarrow> u64" where
  "s2_pend (S2_Sending local start req) = local"
| "s2_pend (S2_Draining local start status headers n) = local"
| "s2_pend _ = 0"

fun h2_pend :: "'m h2 \<Rightarrow> u64" where
  "h2_pend (H2_Streams ss) = (\<Sum>t\<leftarrow>ss. s2_pend t)"
| "h2_pend _ = 0"

text \<open>A connection has exactly its streams, and every request in flight is the configured one.\<close>

fun s2_wf :: "('n, 'v, 'm) job \<Rightarrow> 'm h2_stream \<Rightarrow> bool" where
  "s2_wf J (S2_Sending local start req) = (h2_request (j_lib J) (j_cfg J) = Some req)"
| "s2_wf J (S2_Draining local start status headers n) = (h2_request (j_lib J) (j_cfg J) \<noteq> None)"
| "s2_wf J _ = True"

fun h2_wf :: "('n, 'v, 'm) job \<Rightarrow> 'm h2 \<Rightarrow> bool" where
  "h2_wf J (H2_Streams ss) =
     (length ss = unat (cfg_streams_per_conn (j_cfg J)) \<and> (\<forall>t \<in> set ss. s2_wf J t))"
| "h2_wf J _ = True"

lemma h2_next_ok:
  "h2_next J l s = Some (t', s') \<Longrightarrow> s2_wf J t' \<and> tame s s' \<and> balance s' + s2_pend t' = balance s + l"
  by (auto simp: h2_next_def intro!: tame_refl split: if_splits Option.bind_splits)

lemma h2_next_None: "h2_next J l s = None \<Longrightarrow> h2_request (j_lib J) (j_cfg J) = None"
  by (auto simp: h2_next_def split: if_splits Option.bind_splits)

text \<open>What a response does before the figures of its time are known.\<close>

lemma h2_respond_parts:
  obtains s2 where "sh_latency s2 = sh_latency s" "sh_stop s2 = sh_stop s" "sh_now s2 = sh_now s" "balance s2 = balance s"
    "h2_respond J l start st hs n s =
      (if from_millis (cfg_timeout (j_cfg J)) < sh_now s - start
       then Some (S2_Done, add_complete (l + 1) (inc_timeout s2))
       else do { s3 \<leftarrow> record_latency (as_micros_u64 (sh_now s - start)) s2; h2_next J (l + 1) s3 })"
proof -
  define s2 where "s2 = (let s1 = add_bytes (estimate_response_bytes (j_lib J) st hs + n) s
    in if 399 < st then inc_status s1 else s1)"
  have "sh_latency s2 = sh_latency s" "sh_stop s2 = sh_stop s" "sh_now s2 = sh_now s" "balance s2 = balance s"
    by (simp_all add: s2_def Let_def)
  then show ?thesis by (rule that) (simp add: h2_respond_def s2_def Let_def)
qed

lemma h2_respond_ok:
  assumes "stats_safe (sh_latency s)" "h2_request (j_lib J) (j_cfg J) \<noteq> None"
  shows "\<exists>t' s'. h2_respond J l start st hs n s = Some (t', s') \<and> s2_wf J t' \<and> tame s s'
    \<and> balance s' + s2_pend t' = balance s + l"
proof -
  obtain s2 where s2: "sh_latency s2 = sh_latency s" "sh_stop s2 = sh_stop s" "sh_now s2 = sh_now s" "balance s2 = balance s"
    and eq: "h2_respond J l start st hs n s =
      (if from_millis (cfg_timeout (j_cfg J)) < sh_now s - start
       then Some (S2_Done, add_complete (l + 1) (inc_timeout s2))
       else do { s3 \<leftarrow> record_latency (as_micros_u64 (sh_now s - start)) s2; h2_next J (l + 1) s3 })"
    by (rule h2_respond_parts)
  obtain s3 where s3: "record_latency (as_micros_u64 (sh_now s - start)) s2 = Some s3" "tame s2 s3"
    "balance s3 = balance s2 - 1"
    using record_latency_Some [of s2] assms(1) s2(1) by auto
  have tame2: "tame s s2" using s2 by (intro tame_refl) simp_all
  show ?thesis
  proof (cases "from_millis (cfg_timeout (j_cfg J)) < sh_now s - start")
    case True
    have "tame s (add_complete (l + 1) (inc_timeout s2))" using s2 by (intro tame_refl) simp_all
    with True eq s2 show ?thesis by auto
  next
    case False
    obtain t' s' where next': "h2_next J (l + 1) s3 = Some (t', s')"
      using h2_next_None [of J "l + 1" s3] assms(2) by (cases "h2_next J (l + 1) s3") auto
    from h2_next_ok [OF this] s3 s2(4) tame2 show ?thesis
      unfolding eq using False next' by (auto intro: tame_trans)
  qed
qed

lemma h2_stream_resume_Some:
  assumes "h2_stream_resume J e (t, s) = Some (t', s')" "s2_wf J t" "stats_safe (sh_latency s)"
  shows "s2_wf J t' \<and> tame s s' \<and> balance s' + s2_pend t' = balance s + s2_pend t"
  using assms
proof (induction J e "(t, s)" arbitrary: t s rule: h2_stream_resume.induct)
  case (1 J s)
  then show ?case using h2_next_ok [of J 0 s] by auto
next
  case (4 J fs local start status headers n s)
  then show ?case
  proof (cases "drain_poll fs n")
    case (Ready_Ok k)
    with 4 show ?thesis using h2_respond_ok [of s J local start status headers k] by auto
  qed (auto intro!: tame_refl)
qed (auto intro!: tame_refl)

lemma h2_stream_resume_None:
  assumes "h2_stream_resume J e (t, s) = None" "s2_wf J t" "stats_safe (sh_latency s)"
  shows "h2_request (j_lib J) (j_cfg J) = None"
  using assms
proof (induction J e "(t, s)" arbitrary: t s rule: h2_stream_resume.induct)
  case (4 J fs local start status headers n s)
  then show ?case
  proof (cases "drain_poll fs n")
    case (Ready_Ok k)
    with 4 show ?thesis using h2_respond_ok [of s J local start status headers k] by auto
  qed auto
qed (auto dest: h2_next_None)

lemma h2_resume_Some:
  assumes "h2_resume J e (t, s) = Some (t', s')" "h2_wf J t" "stats_safe (sh_latency s)"
  shows "h2_wf J t' \<and> tame s s' \<and> balance s' + h2_pend t' = balance s + h2_pend t"
  using assms
proof (induction J e "(t, s)" arbitrary: t s rule: h2_resume.induct)
  case (6 J i e ss s)
  show ?case
  proof (cases "i < length ss")
    case True
    then obtain u where u: "h2_stream_resume J e (ss ! i, s) = Some (u, s')" "t' = H2_Streams (ss[i := u])"
      using 6(1) by (auto split: option.splits)
    have step: "s2_wf J u" "tame s s'" "balance s' + s2_pend u = balance s + s2_pend (ss ! i)"
      using h2_stream_resume_Some [OF u(1) _ 6(3)] 6(2) True by auto
    have "(\<Sum>t\<leftarrow>ss[i := u]. s2_pend t) + s2_pend (ss ! i) = (\<Sum>t\<leftarrow>ss. s2_pend t) + s2_pend u"
      by (rule sum_list_swap [OF True])
    then have "balance s' + h2_pend t' = balance s + h2_pend (H2_Streams ss)"
      using swap_total [OF step(3)] u(2) by simp
    moreover have "h2_wf J t'" using 6(2) u(2) all_set_update [of ss "s2_wf J" u i] step(1) by simp
    ultimately show ?thesis using step(2) by blast
  qed (use 6 in simp)
next
  case (7 J ss s)
  have "(\<Sum>t\<leftarrow>ss. s2_pend t) = 0" if "list_all (\<lambda>t. t = S2_Done) ss"
    using that by (induction ss) auto
  then show ?case using 7 by (auto simp: h2_top_def split: if_splits)
qed (auto simp: h2_top_def h2_spawn_def sum_list_replicate intro!: tame_refl split: if_splits option.splits)

lemma h2_resume_None:
  assumes "h2_resume J e (t, s) = None" "h2_wf J t" "stats_safe (sh_latency s)"
  shows "h2_request (j_lib J) (j_cfg J) = None"
  using assms
proof (induction J e "(t, s)" arbitrary: t s rule: h2_resume.induct)
  case (6 J i e ss s)
  then show ?case
    using h2_stream_resume_None [of J e "ss ! i" s] by (auto split: if_splits option.splits)
qed (auto simp: h2_request_def split: option.splits)

interpretation h2: bench_task "h2_resume J" h2_pend "h2_wf J" "h2_request (j_lib J) (j_cfg J) \<noteq> None" for J
  by unfold_locales ((use h2_resume_Some in blast), (simp add: h2_resume_None))

section \<open>Winding down\<close>

fun s2_rank :: "'m h2_stream \<Rightarrow> nat" where
  "s2_rank S2_Ready = 1"
| "s2_rank (S2_Sending local start req) = 2"
| "s2_rank (S2_Draining local start status headers n) = 1"
| "s2_rank S2_Done = 0"

text \<open>The rank of a connection with \<open>n\<close> streams.\<close>

fun h2_rank :: "nat \<Rightarrow> 'm h2 \<Rightarrow> nat" where
  "h2_rank n H2_Start = 1"
| "h2_rank n H2_Tcp = n + 4"
| "h2_rank n H2_Sleeping = 1"
| "h2_rank n H2_Tls = n + 3"
| "h2_rank n H2_Handshaking = n + 2"
| "h2_rank n (H2_Streams ss) = (\<Sum>t\<leftarrow>ss. s2_rank t) + 1"
| "h2_rank n H2_Done = 0"

text \<open>The events that complete what a stream and a connection await.\<close>

fun s2_completes :: "'m h2_stream_event \<Rightarrow> 'm h2_stream \<Rightarrow> bool" where
  "s2_completes S2_Run S2_Ready = True"
| "s2_completes (S2_Response r) (S2_Sending local start req) = True"
| "s2_completes (S2_Body fs) (S2_Draining local start status headers n) = (\<forall>k. drain_poll fs n \<noteq> Pending k)"
| "s2_completes e t = False"

fun h2_completes :: "'m h2_event \<Rightarrow> 'm h2 \<Rightarrow> bool" where
  "h2_completes C2_Run H2_Start = True"
| "h2_completes (C2_Tcp ok) H2_Tcp = True"
| "h2_completes C2_Timer H2_Sleeping = True"
| "h2_completes (C2_Tls ok) H2_Tls = True"
| "h2_completes (C2_Handshake ok) H2_Handshaking = True"
| "h2_completes (C2_Stream i e) (H2_Streams ss) = (i < length ss \<and> s2_completes e (ss ! i))"
| "h2_completes C2_Join (H2_Streams ss) = list_all (\<lambda>t. t = S2_Done) ss"
| "h2_completes e t = False"

lemma h2_stopped_next:
  assumes "sh_stop s"
  shows "h2_next J l s = Some (S2_Done, add_complete l s)" "h2_top s = (H2_Done, s)"
  using assms by (simp_all add: h2_next_def h2_top_def)

lemma h2_stopped_respond:
  "h2_respond J l start st hs n s = Some (t', s') \<Longrightarrow> sh_stop s \<Longrightarrow> t' = S2_Done \<and> sh_rate s' = sh_rate s"
  by (auto simp: h2_respond_def Let_def h2_stopped_next dest!: record_latency_keeps
      split: if_splits Option.bind_splits)

lemma s2_stopped:
  "h2_stream_resume J e (t, s) = Some (t', s') \<Longrightarrow> sh_stop s \<Longrightarrow> s2_rank t' \<le> s2_rank t \<and> sh_rate s' = sh_rate s"
  by (induction J e "(t, s)" arbitrary: t s rule: h2_stream_resume.induct)
     (auto simp: h2_stopped_next dest!: h2_stopped_respond [rotated] split: drained.splits)

lemma h2_stopped:
  "h2_resume J e (t, s) = Some (t', s') \<Longrightarrow> sh_stop s \<Longrightarrow>
    h2_rank (unat (cfg_streams_per_conn (j_cfg J))) t' \<le> h2_rank (unat (cfg_streams_per_conn (j_cfg J))) t
    \<and> sh_rate s' = sh_rate s"
proof (induction J e "(t, s)" arbitrary: t s rule: h2_resume.induct)
  case (6 J i e ss s)
  show ?case
  proof (cases "i < length ss")
    case True
    show ?thesis
    proof (cases "h2_stream_resume J e (ss ! i, s)")
      case None
      then show ?thesis using 6 True by simp
    next
      case (Some ts)
      then obtain t1 s1 where step: "h2_stream_resume J e (ss ! i, s) = Some (t1, s1)" by (cases ts) auto
      then show ?thesis
        using 6 True s2_stopped [OF step 6(2)] sum_list_swap [OF True, of s2_rank t1] by auto
    qed
  qed (use 6 in auto)
qed (auto simp: h2_stopped_next h2_spawn_def sum_list_replicate split: if_splits option.splits)

lemma h2_stopped_respond_Some:
  assumes "stats_safe (sh_latency s)" "sh_stop s"
  shows "\<exists>t' s'. h2_respond J l start st hs n s = Some (t', s') \<and> s2_rank t' = 0"
proof -
  obtain s2 where s2: "sh_latency s2 = sh_latency s" "sh_stop s2 = sh_stop s"
    and eq: "h2_respond J l start st hs n s =
      (if from_millis (cfg_timeout (j_cfg J)) < sh_now s - start
       then Some (S2_Done, add_complete (l + 1) (inc_timeout s2))
       else do { s3 \<leftarrow> record_latency (as_micros_u64 (sh_now s - start)) s2; h2_next J (l + 1) s3 })"
    by (rule h2_respond_parts [of s J l start st hs n])
  obtain s3 where s3: "record_latency (as_micros_u64 (sh_now s - start)) s2 = Some s3"
    using record_latency_Some [of s2] assms(1) s2(1) by auto
  with assms(2) s2(2) have "sh_stop s3" using record_latency_keeps by metis
  with s3 show ?thesis unfolding eq by (simp add: h2_stopped_next)
qed

lemma s2_closer:
  assumes "stats_safe (sh_latency s)" "sh_stop s"
  shows "\<exists>t' s'. h2_stream_resume J e (t, s) = Some (t', s') \<and> (s2_completes e t \<longrightarrow> s2_rank t' < s2_rank t)"
  using assms
proof (induction J e "(t, s)" arbitrary: t s rule: h2_stream_resume.induct)
  case (4 J fs local start status headers n s)
  then show ?case
    using h2_stopped_respond_Some [of s J local start status headers]
    by (cases "drain_poll fs n") auto
qed (auto simp: h2_stopped_next)

lemma h2_closer:
  assumes "stats_safe (sh_latency s)" "sh_stop s" "h2_static_headers (j_lib J) (j_cfg J) \<noteq> None"
  shows "\<exists>t' s'. h2_resume J e (t, s) = Some (t', s') \<and>
    (h2_completes e t \<longrightarrow> h2_rank (unat (cfg_streams_per_conn (j_cfg J))) t'
      < h2_rank (unat (cfg_streams_per_conn (j_cfg J))) t)"
  using assms
proof (induction J e "(t, s)" arbitrary: t s rule: h2_resume.induct)
  case (6 J i e ss s)
  show ?case
  proof (cases "i < length ss")
    case True
    obtain u s' where "h2_stream_resume J e (ss ! i, s) = Some (u, s')" "s2_completes e (ss ! i) \<longrightarrow> s2_rank u < s2_rank (ss ! i)"
      using s2_closer [OF 6(1,2), of J e "ss ! i"] by blast
    then show ?thesis using True sum_list_swap [OF True, of s2_rank u] by auto
  qed simp
qed (auto simp: h2_stopped_next h2_spawn_def sum_list_replicate)

lemma s2_awaits:
  assumes "t \<noteq> S2_Done"
  shows "\<exists>e. s2_completes e t"
proof (cases t)
  case (S2_Draining l start st hs n)
  then have "s2_completes (S2_Body [End]) t" by simp
  then show ?thesis by blast
qed (use assms s2_completes.simps(1,2) in blast)+

lemma h2_awaits:
  assumes "t \<noteq> H2_Done"
  shows "\<exists>e. h2_completes e t"
proof (cases t)
  case (H2_Streams ss)
  show ?thesis
  proof (cases "list_all (\<lambda>t. t = S2_Done) ss")
    case True
    then have "h2_completes C2_Join t" using H2_Streams by simp
    then show ?thesis by blast
  next
    case False
    then obtain i where "i < length ss" "ss ! i \<noteq> S2_Done" by (auto simp: list_all_length)
    with s2_awaits [of "ss ! i"] obtain e where "h2_completes (C2_Stream i e) t" using H2_Streams by auto
    then show ?thesis by blast
  qed
qed (use assms h2_completes.simps(1-5) in blast)+

lemma s2_rank_sum: "(\<Sum>t\<leftarrow>ss. s2_rank t) \<le> 2 * length ss"
proof (induction ss)
  case (Cons t ss)
  then show ?case by (cases t) simp_all
qed simp

lemma h2_rank_le:
  "h2_wf J t \<Longrightarrow> h2_rank (unat (cfg_streams_per_conn (j_cfg J))) t \<le> 2 * unat (cfg_streams_per_conn (j_cfg J)) + 4"
proof (cases t)
  case (H2_Streams ss)
  then show "h2_wf J t \<Longrightarrow> ?thesis" using s2_rank_sum [of ss] by simp
qed simp_all

lemma h2_ended: "h2_rank n t = 0 \<Longrightarrow> h2_pend t = 0"
  by (cases t) simp_all

text \<open>A connection whose headers fit into a map: its first step cannot panic.\<close>

definition h2_ready :: "('n, 'v, 'm) job \<Rightarrow> 'm h2 \<Rightarrow> bool" where
  "h2_ready J t \<longleftrightarrow> h2_wf J t \<and> h2_static_headers (j_lib J) (j_cfg J) \<noteq> None"

interpretation h2_wind: winding_task "h2_resume J" h2_pend "h2_ready J" "h2_request (j_lib J) (j_cfg J) \<noteq> None"
    "h2_rank (unat (cfg_streams_per_conn (j_cfg J)))" h2_completes for J
proof unfold_locales
  show "h2_ready J t \<Longrightarrow> stats_safe (sh_latency s) \<Longrightarrow> h2_resume J e (t, s) = Some (t', s') \<Longrightarrow>
      h2_ready J t' \<and> tame s s' \<and> balance s' + h2_pend t' = balance s + h2_pend t" for t s e t' s'
    using h2.resume_Some unfolding h2_ready_def by blast
  show "h2_ready J t \<Longrightarrow> stats_safe (sh_latency s) \<Longrightarrow> h2_resume J e (t, s) = None \<Longrightarrow>
      \<not> h2_request (j_lib J) (j_cfg J) \<noteq> None" for t s e
    using h2.resume_None unfolding h2_ready_def by blast
  show "h2_ready J t \<Longrightarrow> stats_safe (sh_latency s) \<Longrightarrow> sh_stop s \<Longrightarrow>
      \<exists>t' s'. h2_resume J e (t, s) = Some (t', s') \<and> (h2_completes e t \<longrightarrow>
        h2_rank (unat (cfg_streams_per_conn (j_cfg J))) t' < h2_rank (unat (cfg_streams_per_conn (j_cfg J))) t)" for t s e
    using h2_closer [of s J e t] unfolding h2_ready_def by blast
  show "0 < h2_rank (unat (cfg_streams_per_conn (j_cfg J))) t \<Longrightarrow> \<exists>e. h2_completes e t" for t :: "'c h2"
    by (intro h2_awaits) auto
  show "sh_stop s \<Longrightarrow> h2_resume J e (t, s) = Some (t', s') \<Longrightarrow>
      h2_rank (unat (cfg_streams_per_conn (j_cfg J))) t' \<le> h2_rank (unat (cfg_streams_per_conn (j_cfg J))) t
      \<and> sh_rate s' = sh_rate s" for s e t t' s'
    by (rule h2_stopped)
qed (rule h2_ended)

end
