(* ===== verification/H3.thy ===== *)
theory H3
  imports H2
begin

text \<open>
  The component \<open>src/h3.rs\<close>: one QUIC connection and its HTTP/3 streams. The exchange of one request
  (\<open>h3_request_response\<close>) touches nothing a task shares, so a stream awaits it as a whole; its
  result is a function of what its awaits answer. \<open>j_quic\<close> says whether \<open>Endpoint::connect\<close>
  accepts the address and the host name at all.
\<close>

section \<open>Requests and exchanges\<close>

definition build_h3_request :: "('n, 'v, 'm) http_lib \<Rightarrow> string \<Rightarrow> string \<Rightarrow> 'm \<Rightarrow> string \<Rightarrow> 'm request option" where
  "build_h3_request H meth uri headers body = do {
     m \<leftarrow> append_all H (map_iter H headers) (map_new H);
     Some \<lparr>rq_method = meth, rq_uri = uri, rq_headers = m, rq_body = ''''\<rparr>
   }"

text \<open>The template that the streams of a connection clone; the static headers are those of HTTP/2.\<close>

definition h3_request :: "('n, 'v, 'm) http_lib \<Rightarrow> config \<Rightarrow> 'm request option" where
  "h3_request H c = do {
     headers \<leftarrow> h2_static_headers H c;
     build_h3_request H (run_method H c) (full_uri H c) headers (cfg_body c)
   }"

lemma h3_request_None:
  assumes "header_map_laws H"
  shows "h3_request H c = None \<longleftrightarrow> map_max H < length (cfg_headers c) + 2"
proof (cases "h2_static_headers H c")
  case (Some m)
  then obtain m1 where "append_all H (map_iter H m) (map_new H) = Some m1"
    by (rule static_headers_fit [OF assms])
  then have "h3_request H c \<noteq> None" using Some by (simp add: h3_request_def build_h3_request_def)
  then show ?thesis using Some h2_static_headers_None [OF assms, of c] by auto
qed (use h2_static_headers_None [OF assms, of c] in \<open>simp add: h3_request_def\<close>)

datatype h3_error = Send | Recv

text \<open>The chunks that \<open>recv_data\<close> delivers up to the end of the body; \<open>None\<close> is an error.\<close>

fun h3_read :: "u64 option list \<Rightarrow> u64 \<Rightarrow> h3_error + u64" where
  "h3_read [] acc = Inr acc"
| "h3_read (None # cs) acc = Inl Recv"
| "h3_read (Some k # cs) acc = h3_read cs (acc + k)"

definition h3_request_response ::
    "bool \<Rightarrow> bool \<Rightarrow> u16 option \<Rightarrow> u64 option list \<Rightarrow> h3_error + (u16 \<times> u64)" where
  "h3_request_response sent finished resp chunks =
     (if \<not> sent then Inl Send
      else if \<not> finished then Inl Send
      else (case resp of None \<Rightarrow> Inl Recv
            | Some status \<Rightarrow> (case h3_read chunks 0 of Inl e \<Rightarrow> Inl e | Inr n \<Rightarrow> Inr (status, n))))"

section \<open>A stream\<close>

datatype 'm h3_stream = S3_Ready "'m request" | S3_Exchanging u64 nat "'m request" | S3_Done

datatype h3_stream_event = S3_Run | S3_Exchanged bool bool "u16 option" "u64 option list"

record ('n, 'v, 'm) h3_job = "('n, 'v, 'm) job" +
  j_quic :: bool

definition h3_next :: "'m request \<Rightarrow> u64 \<Rightarrow> shared \<Rightarrow> 'm h3_stream \<times> shared" where
  "h3_next req_template local s =
     (if sh_stop s then (S3_Done, add_complete local s)
      else (S3_Exchanging local (sh_now s) req_template, inc_rate s))"

definition h3_respond ::
    "('n, 'v, 'm) h3_job \<Rightarrow> 'm request \<Rightarrow> u64 \<Rightarrow> nat \<Rightarrow> u16 \<Rightarrow> u64 \<Rightarrow> shared \<Rightarrow> ('m h3_stream \<times> shared) option" where
  "h3_respond J req_template local start status body_bytes s =
     (let elapsed = sh_now s - start;
          elapsed_us = as_micros_u64 elapsed;
          local = local + 1;
          s2 = (if 399 < status then inc_status s else s)
      in if from_millis (cfg_timeout (j_cfg J)) < elapsed
         then Some (h3_next req_template local (inc_timeout s2))
         else do { s3 \<leftarrow> record_latency elapsed_us s2; Some (h3_next req_template local (add_bytes body_bytes s3)) })"

fun h3_stream_resume ::
    "('n, 'v, 'm) h3_job \<Rightarrow> h3_stream_event \<Rightarrow> 'm h3_stream \<times> shared \<Rightarrow> ('m h3_stream \<times> shared) option" where
  "h3_stream_resume J S3_Run (S3_Ready req, s) = Some (h3_next req 0 s)"
| "h3_stream_resume J (S3_Exchanged sent finished resp chunks) (S3_Exchanging local start req, s) =
     (case h3_request_response sent finished resp chunks of
        Inr (status, n) \<Rightarrow> h3_respond J req local start status n s
      | Inl Send \<Rightarrow> Some (S3_Done, add_complete local (inc_write s))
      | Inl Recv \<Rightarrow> Some (S3_Done, add_complete local (inc_read s)))"
| "h3_stream_resume J e (t, s) = Some (t, s)"

section \<open>The connection\<close>

datatype 'm h3 =
    H3_Start
  | H3_Resolving
  | H3_Connecting
  | H3_Sleeping
  | H3_Handshaking
  | H3_Streams "'m h3_stream list"
  | H3_Done

datatype h3_event =
    C3_Run
  | C3_Resolved "string list option"
  | C3_Connected bool
  | C3_Timer
  | C3_Handshake bool
  | C3_Stream nat h3_stream_event
  | C3_Join

text \<open>\<open>resolve\<close>: the first of the addresses that the lookup of the host found; \<open>None\<close> when
  the lookup failed or found none.\<close>

definition resolve :: "'a list option \<Rightarrow> 'a option" where
  "resolve found = do { it \<leftarrow> found; (case it of [] \<Rightarrow> None | a # _ \<Rightarrow> Some a) }"

definition h3_top :: "('n, 'v, 'm) h3_job \<Rightarrow> shared \<Rightarrow> 'm h3 \<times> shared" where
  "h3_top J s =
     (if sh_stop s then (H3_Done, s)
      else if j_quic J then (H3_Connecting, s) else (H3_Sleeping, inc_connect s))"

definition h3_spawn :: "config \<Rightarrow> 'm request \<Rightarrow> 'm h3_stream list" where
  "h3_spawn c req_template = replicate (unat (cfg_streams_per_conn c)) (S3_Ready req_template)"

fun h3_resume :: "('n, 'v, 'm) h3_job \<Rightarrow> h3_event \<Rightarrow> 'm h3 \<times> shared \<Rightarrow> ('m h3 \<times> shared) option" where
  "h3_resume J C3_Run (H3_Start, s) =
     (case h2_static_headers (j_lib J) (j_cfg J) of None \<Rightarrow> None | Some _ \<Rightarrow> Some (H3_Resolving, s))"
| "h3_resume J (C3_Resolved found) (H3_Resolving, s) =
     Some (if resolve found \<noteq> None then h3_top J s else (H3_Done, inc_connect s))"
| "h3_resume J (C3_Connected ok) (H3_Connecting, s) =
     Some (if ok then (H3_Handshaking, s) else (H3_Sleeping, inc_connect s))"
| "h3_resume J C3_Timer (H3_Sleeping, s) = Some (h3_top J s)"
| "h3_resume J (C3_Handshake ok) (H3_Handshaking, s) =
     (if ok then do { req \<leftarrow> h3_request (j_lib J) (j_cfg J); Some (H3_Streams (h3_spawn (j_cfg J) req), s) }
      else Some (h3_top J (inc_connect s)))"
| "h3_resume J (C3_Stream i e) (H3_Streams ss, s) =
     (if i < length ss
      then (case h3_stream_resume J e (ss ! i, s) of
              Some (st, s') \<Rightarrow> Some (H3_Streams (ss[i := st]), s')
            | None \<Rightarrow> None)
      else Some (H3_Streams ss, s))"
| "h3_resume J C3_Join (H3_Streams ss, s) =
     Some (if list_all (\<lambda>t. t = S3_Done) ss then h3_top J s else (H3_Streams ss, s))"
| "h3_resume J e (t, s) = Some (t, s)"

section \<open>The contract\<close>

fun s3_pend :: "'m h3_stream \<Rightarrow> u64" where
  "s3_pend (S3_Exchanging local start req) = local"
| "s3_pend _ = 0"

fun h3_pend :: "'m h3 \<Rightarrow> u64" where
  "h3_pend (H3_Streams ss) = (\<Sum>t\<leftarrow>ss. s3_pend t)"
| "h3_pend _ = 0"

text \<open>A connection has exactly its streams, and each of them sends the configured request.\<close>

fun s3_wf :: "('n, 'v, 'm) h3_job \<Rightarrow> 'm h3_stream \<Rightarrow> bool" where
  "s3_wf J (S3_Ready req) = (h3_request (j_lib J) (j_cfg J) = Some req)"
| "s3_wf J (S3_Exchanging local start req) = (h3_request (j_lib J) (j_cfg J) = Some req)"
| "s3_wf J S3_Done = True"

fun h3_wf :: "('n, 'v, 'm) h3_job \<Rightarrow> 'm h3 \<Rightarrow> bool" where
  "h3_wf J (H3_Streams ss) =
     (length ss = unat (cfg_streams_per_conn (j_cfg J)) \<and> (\<forall>t \<in> set ss. s3_wf J t))"
| "h3_wf J _ = True"

lemma h3_next_ok:
  "h3_next req l s = (t', s') \<Longrightarrow> tame s s' \<and> balance s' + s3_pend t' = balance s + l
    \<and> (h3_request (j_lib J) (j_cfg J) = Some req \<longrightarrow> s3_wf J t')"
  by (auto simp: h3_next_def intro!: tame_refl split: if_splits)

lemma h3_respond_ok:
  assumes "stats_safe (sh_latency s)"
  shows "\<exists>t' s'. h3_respond J req l start st n s = Some (t', s') \<and> tame s s'
    \<and> balance s' + s3_pend t' = balance s + l \<and> (h3_request (j_lib J) (j_cfg J) = Some req \<longrightarrow> s3_wf J t')"
proof -
  define s2 where "s2 = (if 399 < st then inc_status s else s)"
  have s2: "sh_latency s2 = sh_latency s" "sh_stop s2 = sh_stop s" "sh_now s2 = sh_now s" "balance s2 = balance s"
    by (simp_all add: s2_def)
  obtain s3 where s3: "record_latency (as_micros_u64 (sh_now s - start)) s2 = Some s3" "tame s2 s3"
    "balance s3 = balance s2 - 1"
    using record_latency_Some [of s2] assms(1) s2(1) by auto
  let ?late = "from_millis (cfg_timeout (j_cfg J)) < sh_now s - start"
  let ?s4 = "if ?late then inc_timeout s2 else add_bytes n s3"
  obtain t' s' where next': "h3_next req (l + 1) ?s4 = (t', s')" by fastforce
  have "tame s s2" using s2 by (intro tame_refl) simp_all
  moreover have "tame s2 (inc_timeout s2)" "tame s3 (add_bytes n s3)" by (auto intro!: tame_refl)
  ultimately have "tame s ?s4" using s3(2) by (auto intro: tame_trans)
  moreover have "h3_respond J req l start st n s = Some (t', s')"
    using s3(1) next' by (auto simp: h3_respond_def s2_def Let_def split: if_splits)
  moreover have "balance ?s4 = balance s - 1" using s2(4) s3(3) by simp
  ultimately show ?thesis using h3_next_ok [OF next', of J] by (auto intro: tame_trans)
qed

lemma h3_stream_resume_ok:
  assumes "s3_wf J t" "stats_safe (sh_latency s)"
  shows "\<exists>t' s'. h3_stream_resume J e (t, s) = Some (t', s') \<and> s3_wf J t' \<and> tame s s'
    \<and> balance s' + s3_pend t' = balance s + s3_pend t"
  using assms
proof (induction J e "(t, s)" arbitrary: t s rule: h3_stream_resume.induct)
  case (1 J req s)
  then show ?case using h3_next_ok [of req 0 s _ _ J] by (cases "h3_next req 0 s") auto
next
  case (2 J sent finished resp chunks local start req s)
  then have "\<exists>t' s'. h3_respond J req local start st n s = Some (t', s') \<and> s3_wf J t' \<and> tame s s'
      \<and> balance s' + s3_pend t' = balance s + local" for st n
    using h3_respond_ok [of s J req local start st n] by auto
  with 2 show ?case by (auto intro!: tame_refl split: sum.splits h3_error.splits)
qed (auto intro!: tame_refl)

lemma h3_top_ok:
  "h3_top J s = (t', s') \<Longrightarrow> h3_wf J t' \<and> tame s s' \<and> balance s' + h3_pend t' = balance s"
  by (auto simp: h3_top_def intro!: tame_refl split: if_splits)

lemma h3_resume_ok:
  assumes "h3_wf J t" "stats_safe (sh_latency s)"
  shows "h3_resume J e (t, s) = None \<and> h3_request (j_lib J) (j_cfg J) = None \<or>
    (\<exists>t' s'. h3_resume J e (t, s) = Some (t', s') \<and> h3_wf J t' \<and> tame s s'
      \<and> balance s' + h3_pend t' = balance s + h3_pend t)"
  using assms
proof (induction J e "(t, s)" arbitrary: t s rule: h3_resume.induct)
  case (5 J ok s)
  have "tame s (snd (h3_top J (inc_connect s)))"
    by (auto simp: h3_top_def intro!: tame_refl)
  then show ?case
    using h3_top_ok [of J "inc_connect s"]
    by (cases "h3_top J (inc_connect s)")
       (auto simp: h3_spawn_def sum_list_replicate intro!: tame_refl split: Option.bind_splits)
next
  case (6 J i e ss s)
  show ?case
  proof (cases "i < length ss")
    case True
    obtain t' s' where step: "h3_stream_resume J e (ss ! i, s) = Some (t', s')" "s3_wf J t'" "tame s s'"
      "balance s' + s3_pend t' = balance s + s3_pend (ss ! i)"
      using h3_stream_resume_ok [of J "ss ! i" s e] 6 True by auto
    moreover have "(\<Sum>t\<leftarrow>ss[i := t']. s3_pend t) + s3_pend (ss ! i) = (\<Sum>t\<leftarrow>ss. s3_pend t) + s3_pend t'"
      by (rule sum_list_swap [OF True])
    ultimately show ?thesis using True swap_total all_set_update [of ss "s3_wf J" t' i] 6(1) by auto
  qed (use 6 in simp)
next
  case (7 J ss s)
  have "(\<Sum>t\<leftarrow>ss. s3_pend t) = 0" if "list_all (\<lambda>t. t = S3_Done) ss"
    using that by (induction ss) auto
  then show ?case using 7 by (auto simp: h3_top_def intro!: tame_refl)
qed (auto simp: h3_top_def h3_request_def intro!: tame_refl split: option.splits)

interpretation h3: bench_task "h3_resume J" h3_pend "h3_wf J" "h3_request (j_lib J) (j_cfg J) \<noteq> None" for J
proof unfold_locales
  show "h3_wf J t' \<and> tame s s' \<and> balance s' + h3_pend t' = balance s + h3_pend t"
    if "h3_wf J t" "stats_safe (sh_latency s)" "h3_resume J e (t, s) = Some (t', s')" for t s e t' s'
    using h3_resume_ok [OF that(1,2), of e] that(3) by auto
  show "\<not> h3_request (j_lib J) (j_cfg J) \<noteq> None"
    if "h3_wf J t" "stats_safe (sh_latency s)" "h3_resume J e (t, s) = None" for t s e
    using h3_resume_ok [OF that(1,2), of e] that(3) by auto
qed

section \<open>Winding down\<close>

fun s3_rank :: "'m h3_stream \<Rightarrow> nat" where
  "s3_rank (S3_Ready req) = 1"
| "s3_rank (S3_Exchanging local start req) = 1"
| "s3_rank S3_Done = 0"

fun h3_rank :: "nat \<Rightarrow> 'm h3 \<Rightarrow> nat" where
  "h3_rank n H3_Start = 2"
| "h3_rank n H3_Resolving = 1"
| "h3_rank n H3_Connecting = n + 3"
| "h3_rank n H3_Sleeping = 1"
| "h3_rank n H3_Handshaking = n + 2"
| "h3_rank n (H3_Streams ss) = (\<Sum>t\<leftarrow>ss. s3_rank t) + 1"
| "h3_rank n H3_Done = 0"

text \<open>The events that complete what a stream and a connection await.\<close>

fun s3_completes :: "h3_stream_event \<Rightarrow> 'm h3_stream \<Rightarrow> bool" where
  "s3_completes S3_Run (S3_Ready req) = True"
| "s3_completes (S3_Exchanged sent finished resp chunks) (S3_Exchanging local start req) = True"
| "s3_completes e t = False"

fun h3_completes :: "h3_event \<Rightarrow> 'm h3 \<Rightarrow> bool" where
  "h3_completes C3_Run H3_Start = True"
| "h3_completes (C3_Resolved found) H3_Resolving = True"
| "h3_completes (C3_Connected ok) H3_Connecting = True"
| "h3_completes C3_Timer H3_Sleeping = True"
| "h3_completes (C3_Handshake ok) H3_Handshaking = True"
| "h3_completes (C3_Stream i e) (H3_Streams ss) = (i < length ss \<and> s3_completes e (ss ! i))"
| "h3_completes C3_Join (H3_Streams ss) = list_all (\<lambda>t. t = S3_Done) ss"
| "h3_completes e t = False"

lemma h3_stopped_next:
  assumes "sh_stop s"
  shows "h3_next req l s = (S3_Done, add_complete l s)" "h3_top J s = (H3_Done, s)"
  using assms by (simp_all add: h3_next_def h3_top_def)

lemma h3_stopped_respond:
  "h3_respond J req l start st n s = Some (t', s') \<Longrightarrow> sh_stop s \<Longrightarrow> t' = S3_Done \<and> sh_rate s' = sh_rate s"
  by (auto simp: h3_respond_def Let_def h3_stopped_next dest!: record_latency_keeps
      split: if_splits Option.bind_splits)

lemma s3_stopped:
  "h3_stream_resume J e (t, s) = Some (t', s') \<Longrightarrow> sh_stop s \<Longrightarrow> s3_rank t' \<le> s3_rank t \<and> sh_rate s' = sh_rate s"
  by (induction J e "(t, s)" arbitrary: t s rule: h3_stream_resume.induct)
     (auto simp: h3_stopped_next dest!: h3_stopped_respond [rotated] split: sum.splits h3_error.splits prod.splits)

lemma h3_stopped:
  "h3_resume J e (t, s) = Some (t', s') \<Longrightarrow> sh_stop s \<Longrightarrow>
    h3_rank (unat (cfg_streams_per_conn (j_cfg J))) t' \<le> h3_rank (unat (cfg_streams_per_conn (j_cfg J))) t
    \<and> sh_rate s' = sh_rate s"
proof (induction J e "(t, s)" arbitrary: t s rule: h3_resume.induct)
  case (6 J i e ss s)
  show ?case
  proof (cases "i < length ss")
    case True
    show ?thesis
    proof (cases "h3_stream_resume J e (ss ! i, s)")
      case None
      then show ?thesis using 6 True by simp
    next
      case (Some ts)
      then obtain t1 s1 where step: "h3_stream_resume J e (ss ! i, s) = Some (t1, s1)" by (cases ts) auto
      then show ?thesis
        using 6 True s3_stopped [OF step 6(2)] sum_list_swap [OF True, of s3_rank t1] by auto
    qed
  qed (use 6 in auto)
qed (auto simp: h3_stopped_next h3_spawn_def sum_list_replicate split: if_splits option.splits Option.bind_splits)

lemma s3_closer:
  assumes "stats_safe (sh_latency s)" "sh_stop s"
  shows "\<exists>t' s'. h3_stream_resume J e (t, s) = Some (t', s') \<and> (s3_completes e t \<longrightarrow> s3_rank t' < s3_rank t)"
  using assms
proof (induction J e "(t, s)" arbitrary: t s rule: h3_stream_resume.induct)
  case (2 J sent finished resp chunks local start req s)
  have "\<exists>t' s'. h3_respond J req local start st n s = Some (t', s') \<and> s3_rank t' = 0" for st n
    using h3_respond_ok [OF 2(1), of J req local start st n] h3_stopped_respond [of J req local start st n s] 2(2)
    by fastforce
  then show ?case by (auto split: sum.splits h3_error.splits)
qed (auto simp: h3_stopped_next)

lemma h3_closer:
  assumes "stats_safe (sh_latency s)" "sh_stop s" "h3_request (j_lib J) (j_cfg J) \<noteq> None"
    and "h2_static_headers (j_lib J) (j_cfg J) \<noteq> None"
  shows "\<exists>t' s'. h3_resume J e (t, s) = Some (t', s') \<and>
    (h3_completes e t \<longrightarrow> h3_rank (unat (cfg_streams_per_conn (j_cfg J))) t'
      < h3_rank (unat (cfg_streams_per_conn (j_cfg J))) t)"
  using assms
proof (induction J e "(t, s)" arbitrary: t s rule: h3_resume.induct)
  case (6 J i e ss s)
  show ?case
  proof (cases "i < length ss")
    case True
    obtain u s' where "h3_stream_resume J e (ss ! i, s) = Some (u, s')" "s3_completes e (ss ! i) \<longrightarrow> s3_rank u < s3_rank (ss ! i)"
      using s3_closer [OF 6(1,2), of J e "ss ! i"] by blast
    then show ?thesis using True sum_list_swap [OF True, of s3_rank u] by auto
  qed simp
qed (auto simp: h3_stopped_next h3_spawn_def sum_list_replicate)

lemma s3_awaits: "t \<noteq> S3_Done \<Longrightarrow> \<exists>e. s3_completes e t"
  by (cases t) (use s3_completes.simps(1,2) in blast)+

lemma h3_awaits:
  assumes "t \<noteq> H3_Done"
  shows "\<exists>e. h3_completes e t"
proof (cases t)
  case (H3_Streams ss)
  show ?thesis
  proof (cases "list_all (\<lambda>t. t = S3_Done) ss")
    case True
    then have "h3_completes C3_Join t" using H3_Streams by simp
    then show ?thesis by blast
  next
    case False
    then obtain i where "i < length ss" "ss ! i \<noteq> S3_Done" by (auto simp: list_all_length)
    with s3_awaits [of "ss ! i"] obtain e where "h3_completes (C3_Stream i e) t" using H3_Streams by auto
    then show ?thesis by blast
  qed
qed (use assms h3_completes.simps(1-5) in blast)+

lemma s3_rank_sum: "(\<Sum>t\<leftarrow>ss. s3_rank t) \<le> length ss"
proof (induction ss)
  case (Cons t ss)
  then show ?case by (cases t) simp_all
qed simp

lemma h3_rank_le:
  "h3_wf J t \<Longrightarrow> h3_rank (unat (cfg_streams_per_conn (j_cfg J))) t \<le> unat (cfg_streams_per_conn (j_cfg J)) + 3"
proof (cases t)
  case (H3_Streams ss)
  then show "h3_wf J t \<Longrightarrow> ?thesis" using s3_rank_sum [of ss] by simp
qed simp_all

lemma h3_ended: "h3_rank n t = 0 \<Longrightarrow> h3_pend t = 0"
  by (cases t) simp_all

lemma h3_request_static: "h3_request H c \<noteq> None \<Longrightarrow> h2_static_headers H c \<noteq> None"
  by (auto simp: h3_request_def split: Option.bind_splits)

text \<open>A connection whose headers fit into a map: it cannot panic.\<close>

definition h3_ready :: "('n, 'v, 'm) h3_job \<Rightarrow> 'm h3 \<Rightarrow> bool" where
  "h3_ready J t \<longleftrightarrow> h3_wf J t \<and> h3_request (j_lib J) (j_cfg J) \<noteq> None"

interpretation h3_wind: winding_task "h3_resume J" h3_pend "h3_ready J" "h3_request (j_lib J) (j_cfg J) \<noteq> None"
    "h3_rank (unat (cfg_streams_per_conn (j_cfg J)))" h3_completes for J
proof unfold_locales
  show "h3_ready J t \<Longrightarrow> stats_safe (sh_latency s) \<Longrightarrow> h3_resume J e (t, s) = Some (t', s') \<Longrightarrow>
      h3_ready J t' \<and> tame s s' \<and> balance s' + h3_pend t' = balance s + h3_pend t" for t s e t' s'
    using h3.resume_Some unfolding h3_ready_def by blast
  show "h3_ready J t \<Longrightarrow> stats_safe (sh_latency s) \<Longrightarrow> h3_resume J e (t, s) = None \<Longrightarrow>
      \<not> h3_request (j_lib J) (j_cfg J) \<noteq> None" for t s e
    using h3.resume_None unfolding h3_ready_def by blast
  show "h3_ready J t \<Longrightarrow> stats_safe (sh_latency s) \<Longrightarrow> sh_stop s \<Longrightarrow>
      \<exists>t' s'. h3_resume J e (t, s) = Some (t', s') \<and> (h3_completes e t \<longrightarrow>
        h3_rank (unat (cfg_streams_per_conn (j_cfg J))) t' < h3_rank (unat (cfg_streams_per_conn (j_cfg J))) t)" for t s e
    using h3_closer [of s J e t] h3_request_static unfolding h3_ready_def by blast
  show "0 < h3_rank (unat (cfg_streams_per_conn (j_cfg J))) t \<Longrightarrow> \<exists>e. h3_completes e t" for t :: "'c h3"
    by (intro h3_awaits) auto
  show "sh_stop s \<Longrightarrow> h3_resume J e (t, s) = Some (t', s') \<Longrightarrow>
      h3_rank (unat (cfg_streams_per_conn (j_cfg J))) t' \<le> h3_rank (unat (cfg_streams_per_conn (j_cfg J))) t
      \<and> sh_rate s' = sh_rate s" for s e t t' s'
    by (rule h3_stopped)
qed (rule h3_ended)

end
