(* ===== verification/Worker.thy ===== *)
theory Worker
  imports H3
begin

text \<open>
  The component \<open>src/worker.rs\<close>: the workers, each with its connection tasks, its counters and its
  rate recorder, and the run they make together with the histograms, the stop flag and the clock
  that they share. A worker is one thread that polls one task at a time, so an action runs one task
  from one await to the next; the actions of different workers interleave in any order (inside
  \<open>Stats::record\<close> they may overlap: \<open>Stats_Conc\<close>). When the rate recorder sees the stop flag,
  \<open>block_on\<close> returns, the worker's tasks are dropped and its counters are read. A panic of any thread
  ends the program: the release profile of \<open>Cargo.toml\<close> says \<open>panic = "abort"\<close>.
\<close>

section \<open>The rate recorder\<close>

definition RECORD_INTERVAL_MS :: u64 where "RECORD_INTERVAL_MS = 100"

definition request_rate :: "u64 \<Rightarrow> nat \<Rightarrow> u64" where
  "request_rate reqs elapsed_ns =
     (let elapsed_ms = word_of_nat (max (elapsed_ns div 1000000) 1)
      in f64_as_u64 (f64_of_u64 reqs / f64_of_u64 elapsed_ms * lit 1000))"

record 't worker =
  wk_tasks :: "'t list"
  wk_counters :: counters
  wk_rate :: u64
  wk_start :: nat
  wk_exited :: bool

text \<open>One turn of \<open>run_rate_recorder\<close>, after its sleep; the result of \<open>record\<close> is ignored.\<close>

definition recorder_turn :: "nat \<Rightarrow> bool \<Rightarrow> 't worker \<times> stats \<Rightarrow> ('t worker \<times> stats) option" where
  "recorder_turn now stop ws = (case ws of (w, requests) \<Rightarrow> do {
     let reqs = wk_rate w;
     let w = w\<lparr>wk_rate := 0\<rparr>;
     requests \<leftarrow> (if 0 < reqs
       then do { (_, r) \<leftarrow> stats_record (request_rate reqs (now - wk_start w)) requests; Some r }
       else Some requests);
     Some (w\<lparr>wk_start := now, wk_exited := stop\<rparr>, requests)
   })"

section \<open>The run\<close>

record 't run =
  r_workers :: "'t worker list"
  r_latency :: stats
  r_requests :: stats
  r_stop :: bool
  r_now :: nat
  r_aborted :: bool

datatype 'e action = Poll nat nat 'e | Sample nat | Clock nat | Stop

definition view :: "'t worker \<Rightarrow> 't run \<Rightarrow> shared" where
  "view w r = \<lparr>sh_counters = wk_counters w, sh_rate = wk_rate w, sh_latency = r_latency r,
     sh_stop = r_stop r, sh_now = r_now r\<rparr>"

text \<open>Poll task \<open>i\<close> of a worker; \<open>None\<close> is a panic.\<close>

definition poll_task ::
    "('e \<Rightarrow> 't \<times> shared \<Rightarrow> ('t \<times> shared) option) \<Rightarrow> nat \<Rightarrow> 'e \<Rightarrow> 't worker \<times> 't run \<Rightarrow> ('t worker \<times> stats) option" where
  "poll_task resume i e wr = (case wr of (w, r) \<Rightarrow>
     if i < length (wk_tasks w) then do {
       (t, s) \<leftarrow> resume e (wk_tasks w ! i, view w r);
       Some (w\<lparr>wk_tasks := (wk_tasks w)[i := t], wk_counters := sh_counters s, wk_rate := sh_rate s\<rparr>, sh_latency s)
     } else Some (w, r_latency r))"

text \<open>An action of a worker that has ended, and any action after a panic, changes nothing.\<close>

fun live_step :: "('e \<Rightarrow> 't \<times> shared \<Rightarrow> ('t \<times> shared) option) \<Rightarrow> 'e action \<Rightarrow> 't run \<Rightarrow> 't run" where
  "live_step resume (Poll k i e) r =
     (if k < length (r_workers r) \<and> \<not> wk_exited (r_workers r ! k)
      then (case poll_task resume i e (r_workers r ! k, r) of
              None \<Rightarrow> r\<lparr>r_aborted := True\<rparr>
            | Some (w, l) \<Rightarrow> r\<lparr>r_workers := (r_workers r)[k := w], r_latency := l\<rparr>)
      else r)"
| "live_step resume (Sample k) r =
     (if k < length (r_workers r) \<and> \<not> wk_exited (r_workers r ! k)
      then (case recorder_turn (r_now r) (r_stop r) (r_workers r ! k, r_requests r) of
              None \<Rightarrow> r\<lparr>r_aborted := True\<rparr>
            | Some (w, q) \<Rightarrow> r\<lparr>r_workers := (r_workers r)[k := w], r_requests := q\<rparr>)
      else r)"
| "live_step resume (Clock d) r = r\<lparr>r_now := r_now r + d\<rparr>"
| "live_step resume Stop r = r\<lparr>r_stop := True\<rparr>"

definition run_step :: "('e \<Rightarrow> 't \<times> shared \<Rightarrow> ('t \<times> shared) option) \<Rightarrow> 'e action \<Rightarrow> 't run \<Rightarrow> 't run" where
  "run_step resume act r = (if r_aborted r then r else live_step resume act r)"

lemma run_step_simps [simp]:
  "r_aborted r \<Longrightarrow> run_step resume act r = r"
  "\<not> r_aborted r \<Longrightarrow> run_step resume act r = live_step resume act r"
  by (simp_all add: run_step_def)

definition run_steps :: "('e \<Rightarrow> 't \<times> shared \<Rightarrow> ('t \<times> shared) option) \<Rightarrow> 'e action list \<Rightarrow> 't run \<Rightarrow> 't run" where
  "run_steps resume acts r = fold (run_step resume) acts r"

text \<open>A worker spawns its tasks and starts its recorder; the three variants differ in the task.\<close>

definition start_worker :: "'t \<Rightarrow> u64 \<Rightarrow> nat \<Rightarrow> 't worker" where
  "start_worker t connections now = \<lparr>wk_tasks = replicate (unat connections) t,
     wk_counters = counters_default, wk_rate = 0, wk_start = now, wk_exited = False\<rparr>"

definition run_worker :: "u64 \<Rightarrow> nat \<Rightarrow> 'm h1 worker" where
  "run_worker connections now = start_worker H1_Start connections now"

definition run_h2_worker :: "u64 \<Rightarrow> nat \<Rightarrow> 'm h2 worker" where
  "run_h2_worker connections now = start_worker H2_Start connections now"

definition run_h3_worker :: "u64 \<Rightarrow> nat \<Rightarrow> 'm h3 worker" where
  "run_h3_worker connections now = start_worker H3_Start connections now"

text \<open>The snapshot a worker returns; a worker whose runtime could not be built returns the default.\<close>

definition worker_result :: "bool \<Rightarrow> 't worker \<Rightarrow> snapshot" where
  "worker_result runtime_ok w = (if runtime_ok then take_snapshot (wk_counters w) else snapshot_default)"

section \<open>The recorder and the stop flag\<close>

lemma recorder_turn_ok:
  assumes "stats_safe q"
  shows "\<exists>w' q'. recorder_turn now stop (w, q) = Some (w', q') \<and> stats_safe q'
    \<and> wk_tasks w' = wk_tasks w \<and> wk_counters w' = wk_counters w"
proof -
  let ?rate = "request_rate (wk_rate w) (now - wk_start w)"
  obtain q1 where "stats_record ?rate q = Some (?rate < st_limit q, q1)" "stats_safe q1"
    using stats_record_Some [OF assms] by blast
  then show ?thesis using assms by (simp add: recorder_turn_def Let_def)
qed

text \<open>A worker stops only after the flag is set, and then stays as it is.\<close>

lemma run_steps_simps [simp]:
  "run_steps resume [] r = r"
  "run_steps resume (a # acts) r = run_steps resume acts (run_step resume a r)"
  "run_steps resume (acts @ acts') r = run_steps resume acts' (run_steps resume acts r)"
  by (simp_all add: run_steps_def)

lemma run_step_basic:
  assumes "stats_safe (r_requests r)"
  shows "stats_safe (r_requests (run_step resume act r)) \<and> length (r_workers (run_step resume act r)) = length (r_workers r)
    \<and> (r_stop r \<longrightarrow> r_stop (run_step resume act r))"
proof (cases act)
  case (Sample k)
  show ?thesis
    using Sample assms recorder_turn_ok [of "r_requests r" "r_now r" "r_stop r" "r_workers r ! k"]
    by (auto simp: run_step_def)
qed (use assms in \<open>auto simp: run_step_def split: prod.splits option.splits\<close>)

lemma run_steps_basic:
  "stats_safe (r_requests r) \<Longrightarrow> stats_safe (r_requests (run_steps resume acts r)) \<and>
    length (r_workers (run_steps resume acts r)) = length (r_workers r) \<and>
    (r_stop r \<longrightarrow> r_stop (run_steps resume acts r))"
  by (induction acts arbitrary: r) (auto simp: run_step_basic)

lemma exited_step:
  "k < length (r_workers r) \<Longrightarrow> wk_exited (r_workers r ! k) \<Longrightarrow>
    r_workers (run_step resume act r) ! k = r_workers r ! k"
  by (cases act) (auto simp: run_step_def nth_list_update split: prod.splits option.splits)

lemma exited_stays:
  "stats_safe (r_requests r) \<Longrightarrow> k < length (r_workers r) \<Longrightarrow> wk_exited (r_workers r ! k) \<Longrightarrow>
    r_workers (run_steps resume acts r) ! k = r_workers r ! k"
proof (induction acts arbitrary: r)
  case (Cons a acts)
  then show ?case using exited_step [of k r resume a] run_step_basic [of r resume a] by simp
qed simp

lemma aborted_stays: "r_aborted r \<Longrightarrow> run_steps resume acts r = r"
  by (induction acts) simp_all

lemma sample_exits:
  assumes "stats_safe (r_requests r)" "k < length (r_workers r)" "r_stop r" "\<not> r_aborted r"
  shows "wk_exited (r_workers (run_step resume (Sample k) r) ! k)"
proof (cases "wk_exited (r_workers r ! k)")
  case False
  obtain w q where turn: "recorder_turn (r_now r) (r_stop r) (r_workers r ! k, r_requests r) = Some (w, q)"
    using recorder_turn_ok [OF assms(1)] by blast
  then have "wk_exited w" using assms(3) by (auto simp: recorder_turn_def Let_def split: Option.bind_splits)
  with False turn assms(2,4) show ?thesis by simp
qed (use assms exited_step [of k r resume "Sample k"] in simp)

lemma poll_keeps_running: "poll_task resume i e (w, r) = Some (w', l) \<Longrightarrow> wk_exited w' = wk_exited w"
  by (auto simp: poll_task_def split: if_splits Option.bind_splits)

lemma running_step:
  assumes "k < length (r_workers r)" "\<not> r_stop r" "\<not> wk_exited (r_workers r ! k)"
  shows "\<not> wk_exited (r_workers (run_step resume act r) ! k)"
proof (cases act)
  case (Poll j i e)
  then show ?thesis
    using assms poll_keeps_running [of resume i e "r_workers r ! j" r]
    by (auto simp: run_step_def nth_list_update split: prod.splits option.splits)
next
  case (Sample j)
  then show ?thesis
    using assms by (auto simp: run_step_def nth_list_update recorder_turn_def Let_def split: option.splits Option.bind_splits)
qed (use assms in \<open>simp_all add: run_step_def\<close>)

lemma running_stays:
  "stats_safe (r_requests r) \<Longrightarrow> k < length (r_workers r) \<Longrightarrow> \<not> r_stop r \<Longrightarrow> \<not> wk_exited (r_workers r ! k) \<Longrightarrow>
    Stop \<notin> set acts \<Longrightarrow> \<not> wk_exited (r_workers (run_steps resume acts r) ! k)"
proof (induction acts arbitrary: r)
  case (Cons a acts)
  have "\<not> r_stop (run_step resume a r)"
    using Cons.prems by (cases a) (auto simp: run_step_def split: prod.splits option.splits)
  then show ?case
    using Cons.IH [of "run_step resume a r"] Cons.prems run_step_basic [of r resume a] running_step [of k r resume a]
    by simp
qed simp

text \<open>The number of workers and of their task slots does not change.\<close>

definition slots :: "nat \<Rightarrow> nat \<Rightarrow> 't run \<Rightarrow> bool" where
  "slots m n r \<longleftrightarrow> length (r_workers r) = m \<and> (\<forall>w \<in> set (r_workers r). length (wk_tasks w) = n)"

lemma slots_update:
  assumes "slots m n r" "k < length (r_workers r)" "length (wk_tasks w) = length (wk_tasks (r_workers r ! k))"
  shows "length ((r_workers r)[k := w]) = m \<and> (\<forall>w \<in> set ((r_workers r)[k := w]). length (wk_tasks w) = n)"
  using assms set_update_subset_insert [of "r_workers r" k w] nth_mem [OF assms(2)] by (auto simp: slots_def)

lemma poll_task_slots: "poll_task resume i e (w, r) = Some (w', l) \<Longrightarrow> length (wk_tasks w') = length (wk_tasks w)"
  by (auto simp: poll_task_def split: if_splits Option.bind_splits)

lemma recorder_slots: "recorder_turn now stop (w, q) = Some (w', q') \<Longrightarrow> length (wk_tasks w') = length (wk_tasks w)"
  by (auto simp: recorder_turn_def Let_def split: Option.bind_splits)

lemma slots_step: "slots m n r \<Longrightarrow> slots m n (run_step resume act r)"
proof (cases act)
  case (Poll k i e)
  assume "slots m n r"
  then show ?thesis
    using Poll slots_update [of m n r k] poll_task_slots [of resume i e "r_workers r ! k" r]
    by (auto simp: run_step_def slots_def split: prod.splits option.splits)
next
  case (Sample k)
  assume "slots m n r"
  then show ?thesis
    using Sample slots_update [of m n r k] recorder_slots [of "r_now r" "r_stop r" "r_workers r ! k" "r_requests r"]
    by (auto simp: run_step_def slots_def split: option.splits)
qed (simp_all add: run_step_def slots_def)

lemma slots_steps: "slots m n r \<Longrightarrow> slots m n (run_steps resume acts r)"
  by (induction acts arbitrary: r) (simp_all add: slots_step)

section \<open>Accounting\<close>

definition net :: "'t worker \<Rightarrow> u64" where
  "net w = k_complete (wk_counters w) - k_errors_timeout (wk_counters w)"

lemma balance_view: "balance (view w r) = net w - st_count (r_latency r)"
  by (simp add: balance_def view_def net_def)

context bench_task
begin

definition held :: "'t worker \<Rightarrow> u64" where
  "held w = (\<Sum>t\<leftarrow>wk_tasks w. pend t)"

definition run_ok :: "'t run \<Rightarrow> bool" where
  "run_ok r \<longleftrightarrow> stats_safe (r_latency r) \<and> stats_safe (r_requests r) \<and>
     (\<forall>w \<in> set (r_workers r). \<forall>t \<in> set (wk_tasks w). wf t)"

definition account :: "'t run \<Rightarrow> u64" where
  "account r = (\<Sum>w\<leftarrow>r_workers r. net w + held w) - st_count (r_latency r)"

lemma poll_task_None:
  assumes "stats_safe (r_latency r)" "\<forall>t \<in> set (wk_tasks w). wf t" "poll_task resume i e (w, r) = None"
  shows "\<not> sound"
proof -
  have i: "i < length (wk_tasks w)" "resume e (wk_tasks w ! i, view w r) = None"
    using assms(3) by (auto simp: poll_task_def split: if_splits Option.bind_splits)
  then show ?thesis using resume_None [OF _ _ i(2)] assms(1,2) by (simp add: view_def)
qed

lemma poll_task_ok:
  assumes "stats_safe (r_latency r)" "\<forall>t \<in> set (wk_tasks w). wf t"
    and "poll_task resume i e (w, r) = Some (w', l)"
  shows "(\<forall>t \<in> set (wk_tasks w'). wf t) \<and> stats_safe l \<and> st_limit l = st_limit (r_latency r)
    \<and> (net w' + held w') - st_count l = (net w + held w) - st_count (r_latency r)"
proof (cases "i < length (wk_tasks w)")
  case True
  let ?t = "wk_tasks w ! i"
  have wf: "wf ?t" using assms(2) True by simp
  have lat: "sh_latency (view w r) = r_latency r" by (simp add: view_def)
  obtain t' s where s: "resume e (?t, view w r) = Some (t', s)"
    and w': "w' = w\<lparr>wk_tasks := (wk_tasks w)[i := t'], wk_counters := sh_counters s, wk_rate := sh_rate s\<rparr>" "l = sh_latency s"
    using assms(3) True by (auto simp: poll_task_def split: Option.bind_splits)
  have "wf t'" "tame (view w r) s" and bal: "balance s + pend t' = net w - st_count (r_latency r) + pend ?t"
    using resume_Some [OF wf _ s] assms(1) lat by (simp_all add: balance_view)
  then have safe: "stats_safe l" "st_limit l = st_limit (r_latency r)"
    using tame_safe [of "view w r" s] assms(1) lat w'(2) by simp_all
  have "held w' + pend ?t = held w + pend t'"
    using sum_list_swap [OF True, of pend t'] by (simp add: held_def w')
  then have total: "balance s + held w' = net w - st_count (r_latency r) + held w"
    by (rule swap_total [OF bal])
  have "balance s = net w' - st_count l" by (simp add: balance_def net_def w')
  then have "(net w' + held w') - st_count l = (net w + held w) - st_count (r_latency r)"
    using total by (simp only: diff_add_eq)
  with safe \<open>wf t'\<close> assms(2) show ?thesis
    using set_update_subset_insert [of "wk_tasks w" i t'] by (auto simp: w'(1))
qed (use assms in \<open>auto simp: poll_task_def\<close>)

lemma poll_step_ok:
  assumes "run_ok r" "k < length (r_workers r)" "poll_task resume i e (r_workers r ! k, r) = Some (w', l)"
  defines "r' \<equiv> r\<lparr>r_workers := (r_workers r)[k := w'], r_latency := l\<rparr>"
  shows "run_ok r' \<and> account r' = account r \<and> st_limit l = st_limit (r_latency r)"
proof -
  let ?w = "r_workers r ! k"
  have "?w \<in> set (r_workers r)" using assms(2) by simp
  then have ok: "\<forall>t \<in> set (wk_tasks w'). wf t" "stats_safe l" "st_limit l = st_limit (r_latency r)"
    "(net w' + held w') - st_count l = (net ?w + held ?w) - st_count (r_latency r)"
    using poll_task_ok [OF _ _ assms(3)] assms(1) by (auto simp: run_ok_def)
  have "(\<Sum>w\<leftarrow>(r_workers r)[k := w']. net w + held w) + (net ?w + held ?w)
      = (\<Sum>w\<leftarrow>r_workers r. net w + held w) + (net w' + held w')"
    using assms(2) by (rule sum_list_swap)
  from swap_balance [OF this ok(4)] have "account r' = account r" by (simp add: account_def r'_def)
  moreover have "run_ok r'"
    using assms(1) ok set_update_subset_insert [of "r_workers r" k w'] by (auto simp: run_ok_def r'_def)
  ultimately show ?thesis using ok(3) by simp
qed

lemma sample_step_ok:
  assumes "run_ok r" "k < length (r_workers r)"
    and turn: "stats_safe q" "wk_tasks w' = wk_tasks (r_workers r ! k)" "wk_counters w' = wk_counters (r_workers r ! k)"
  defines "r' \<equiv> r\<lparr>r_workers := (r_workers r)[k := w'], r_requests := q\<rparr>"
  shows "run_ok r' \<and> account r' = account r"
proof -
  let ?w = "r_workers r ! k"
  have same: "net w' + held w' = net ?w + held ?w" using turn by (simp add: net_def held_def)
  have "(\<Sum>w\<leftarrow>(r_workers r)[k := w']. net w + held w) = (\<Sum>w\<leftarrow>r_workers r. net w + held w)"
    using sum_list_swap [of k "r_workers r" "\<lambda>w. net w + held w" w'] assms(2) same by simp
  then have "account r' = account r" by (simp add: account_def r'_def)
  moreover have "run_ok r'"
    using assms(1,2) turn set_update_subset_insert [of "r_workers r" k w'] nth_mem [of k "r_workers r"]
    by (fastforce simp: run_ok_def r'_def)
  ultimately show ?thesis by simp
qed

text \<open>A step that aborts the program leaves everything else as it was.\<close>

lemma run_step_ok:
  assumes "run_ok r"
  shows "run_ok (run_step resume act r) \<and> account (run_step resume act r) = account r
    \<and> st_limit (r_latency (run_step resume act r)) = st_limit (r_latency r)
    \<and> length (r_workers (run_step resume act r)) = length (r_workers r)
    \<and> (r_aborted (run_step resume act r) \<longrightarrow> r_aborted r \<or> \<not> sound)"
proof (cases "r_aborted r")
  case live: False
  show ?thesis
  proof (cases act)
    case (Poll k i e)
    show ?thesis
    proof (cases "k < length (r_workers r) \<and> \<not> wk_exited (r_workers r ! k)")
      case k: True
      show ?thesis
      proof (cases "poll_task resume i e (r_workers r ! k, r)")
        case None
        have "r_workers r ! k \<in> set (r_workers r)" using k by simp
        then have "\<not> sound" using poll_task_None [OF _ _ None] assms by (auto simp: run_ok_def)
        with Poll k None live assms show ?thesis by (simp add: run_ok_def account_def)
      next
        case (Some wl)
        then obtain w' l where poll: "poll_task resume i e (r_workers r ! k, r) = Some (w', l)" by (cases wl) auto
        show ?thesis using Poll poll live assms poll_step_ok [OF assms _ poll] by simp
      qed
    qed (use Poll live assms in auto)
  next
    case (Sample k)
    obtain w' q where turn: "recorder_turn (r_now r) (r_stop r) (r_workers r ! k, r_requests r) = Some (w', q)"
      "stats_safe q" "wk_tasks w' = wk_tasks (r_workers r ! k)" "wk_counters w' = wk_counters (r_workers r ! k)"
      using recorder_turn_ok [of "r_requests r" "r_now r" "r_stop r" "r_workers r ! k"] assms by (auto simp: run_ok_def)
    show ?thesis using Sample turn(1) assms live sample_step_ok [OF assms _ turn(2-4)] by simp
  qed (use assms live in \<open>simp_all add: run_ok_def account_def\<close>)
qed (use assms in simp)

lemma run_steps_ok:
  "run_ok r \<Longrightarrow> run_ok (run_steps resume acts r) \<and> account (run_steps resume acts r) = account r
    \<and> st_limit (r_latency (run_steps resume acts r)) = st_limit (r_latency r)
    \<and> length (r_workers (run_steps resume acts r)) = length (r_workers r)
    \<and> (r_aborted (run_steps resume acts r) \<longrightarrow> r_aborted r \<or> \<not> sound)"
proof (induction acts arbitrary: r)
  case (Cons a acts)
  then show ?case using run_step_ok [OF Cons.prems, of a] Cons.IH [of "run_step resume a r"] by auto
qed simp

end

context winding_task
begin

lemma rate_step:
  assumes "r_stop r" "k < length (r_workers r)"
  shows "wk_rate (r_workers (run_step resume act r) ! k) \<in> {wk_rate (r_workers r ! k), 0}"
proof (cases act)
  case (Poll j i e)
  have "wk_rate w' = wk_rate w" if "poll_task resume i e (w, r) = Some (w', l)" for w w' l
    using that stopped [of "view w r" e] assms(1)
    by (auto simp: poll_task_def view_def split: if_splits Option.bind_splits)
  then show ?thesis using Poll assms(2) by (auto simp: run_step_def nth_list_update split: prod.splits option.splits)
next
  case (Sample j)
  then show ?thesis
    using assms(2) by (auto simp: run_step_def nth_list_update recorder_turn_def Let_def split: option.splits Option.bind_splits)
qed (use assms in \<open>simp_all add: run_step_def\<close>)

lemma rate_after_stop:
  "r_stop r \<Longrightarrow> stats_safe (r_requests r) \<Longrightarrow> k < length (r_workers r) \<Longrightarrow>
    wk_rate (r_workers (run_steps resume acts r) ! k) \<in> {wk_rate (r_workers r ! k), 0}"
proof (induction acts arbitrary: r)
  case (Cons a acts)
  have "wk_rate (r_workers (run_steps resume acts (run_step resume a r)) ! k)
      \<in> {wk_rate (r_workers (run_step resume a r) ! k), 0}"
    using Cons.prems run_step_basic [of r resume a] by (intro Cons.IH) simp_all
  then show ?case using rate_step [OF Cons.prems(1,3), of a] by auto
qed simp

end

end
