(* ===== verification/Task_Props.thy ===== *)
theory Task_Props
  imports Worker Config_Props
begin

text \<open>
  The properties of the benchmark tasks: what they send, how they account for what they receive,
  and how they stop. The witnesses use a concrete header map, an association list.
\<close>

section \<open>A concrete header map\<close>

definition list_lib :: "(string, string, (string \<times> string) list) http_lib" where
  "list_lib = \<lparr>valid_method = (\<lambda>m. m \<noteq> []), valid_uri = (\<lambda>u. u \<noteq> []), static_name = (\<lambda>s. s),
     static_value = (\<lambda>s. s), name_from_bytes = (\<lambda>s. if s = [] then None else Some s),
     value_from_str = Some, value_from_usize = (\<lambda>n. show_dec (int n)),
     name_len = (\<lambda>s. word_of_nat (length s)), value_len = (\<lambda>s. word_of_nat (length s)),
     map_max = 24576, map_new = [], map_with_capacity = (\<lambda>k. if k \<le> 24576 then Some [] else None),
     map_reserve = (\<lambda>k m. if length m + k \<le> 24576 then Some m else None),
     map_append = (\<lambda>n v m. if length m < 24576 then Some (m @ [(n, v)]) else None),
     map_insert = (\<lambda>n v m. if length m < 24576 then Some ((n, v) # filter (\<lambda>(k, w). k \<noteq> n) m) else None),
     map_iter = (\<lambda>m. m)\<rparr>"

lemma list_lib_laws: "header_map_laws list_lib"
  by (auto simp: header_map_laws_def list_lib_def)

definition plain_config :: config where
  "plain_config = example_config\<lparr>cfg_scheme := Http, cfg_port := 80, cfg_body := ''abc'',
     cfg_headers := [(''Accept'', ''*/*''), ('''', ''dropped'')]\<rparr>"

lemma plain_request: "h1_request list_lib plain_config \<noteq> None"
  using h1_request_None [OF list_lib_laws, of plain_config]
  by (simp add: list_lib_def plain_config_def example_config_def)

definition plain_job :: "(string, string, (string \<times> string) list) job" where
  "plain_job = \<lparr>j_lib = list_lib, j_cfg = plain_config, j_tls = False, j_sni = False\<rparr>"

section \<open>Requests\<close>

definition base_headers :: "('n, 'v, 'm) http_lib \<Rightarrow> config \<Rightarrow> ('n \<times> 'v) list" where
  "base_headers H c = (static_name H ''user-agent'', static_value H ''wrk-rs/0.1.0'') # user_headers H (cfg_headers c)"

text \<open>C18: HTTP/1.1 requests. A request carries the method (\<open>GET\<close> if it is not one the crate parses), the
  path, the body, and exactly these headers: \<open>Host\<close> with the port when it is not the scheme's, the
  user agent, the accepted \<open>-H\<close> headers, and, with a body, one \<open>Content-Length\<close> that replaces any
  given by \<open>-H\<close>.\<close>

theorem h1_request_contents:
  assumes "header_map_laws H" "h1_request H c = Some req"
  shows "\<exists>host. value_from_str H (host_header c) = Some host \<and>
    rq_method req = run_method H c \<and> rq_uri req = cfg_path c \<and> rq_body req = cfg_body c \<and>
    (let hs = mset ((static_name H ''host'', host) # base_headers H c);
         cl = static_name H ''content-length''
     in mset (map_iter H (rq_headers req)) =
       (if cfg_body c = [] then hs
        else add_mset (cl, value_from_usize H (length (cfg_body c))) {#(k, w) \<in># hs. k \<noteq> cl#}))"
proof -
  obtain host where host: "value_from_str H (host_header c) = Some host"
    using assms(2) by (auto simp: h1_request_def h1_static_headers_def split: Option.bind_splits)
  let ?hs = "(static_name H ''host'', host) # base_headers H c"
  have build: "build_request H (run_method H c) (cfg_path c) ?hs (length ?hs + (if 0 < length (cfg_body c) then 1 else 0))
      (cfg_body c) = Some req"
    using assms(2) host by (simp add: h1_request_def h1_static_headers_def base_headers_def n_headers_def)
  then obtain m m1 where m: "map_reserve H (length ?hs + (if 0 < length (cfg_body c) then 1 else 0)) (map_new H) = Some m"
    "append_all H ?hs m = Some m1"
    and body: "cfg_body c \<noteq> [] \<Longrightarrow> map_insert H (static_name H ''content-length'')
        (value_from_usize H (length (cfg_body c))) m1 = Some (rq_headers req)" "cfg_body c = [] \<Longrightarrow> rq_headers req = m1"
    and req: "rq_method req = run_method H c" "rq_uri req = cfg_path c" "rq_body req = cfg_body c"
    by (auto simp: build_request_def Let_def simp del: append_all.simps split: if_splits Option.bind_splits)
  have m1: "mset (map_iter H m1) = mset ?hs"
    using iter_append_all [OF assms(1) m(2)] map_laws(5) [OF assms(1) m(1)] map_laws(1) [OF assms(1)] by simp
  have "cfg_body c \<noteq> [] \<Longrightarrow> mset (map_iter H (rq_headers req)) =
      add_mset (static_name H ''content-length'', value_from_usize H (length (cfg_body c)))
        {#(k, w) \<in># mset ?hs. k \<noteq> static_name H ''content-length''#}"
    using map_laws(9) [OF assms(1) body(1)] unfolding m1 by blast
  then show ?thesis using host m1 body(2) req by (intro exI [of _ host]) (simp add: Let_def)
qed

theorem h1_request_contents_witness:
  "\<exists>req. h1_request list_lib plain_config = Some req \<and> rq_body req = ''abc'' \<and> rq_uri req = ''/''"
proof -
  obtain req where "h1_request list_lib plain_config = Some req"
    using plain_request by auto
  with h1_request_contents [OF list_lib_laws this] show ?thesis
    by (auto simp: plain_config_def example_config_def)
qed

text \<open>C30: HTTP/2 and HTTP/3 requests. Both carry the user agent and the accepted \<open>-H\<close> headers. With a body,
  HTTP/2 appends its length (next to one given by \<open>-H\<close>) and sends it; HTTP/3 sends neither the body
  nor its length. Either request can be built, and the task does not panic, exactly when the header map has
  room for as many entries as there are \<open>-H\<close> options and two more.\<close>

theorem h2_h3_request_contents:
  assumes "header_map_laws H"
  shows "(h2_request H c \<noteq> None \<longleftrightarrow> length (cfg_headers c) + 2 \<le> map_max H)
    \<and> (h3_request H c \<noteq> None \<longleftrightarrow> length (cfg_headers c) + 2 \<le> map_max H)
    \<and> (\<forall>req2. h2_request H c = Some req2 \<longrightarrow>
      mset (map_iter H (rq_headers req2)) = mset (base_headers H c) +
        (if cfg_body c = [] then {#}
         else {#(static_name H ''content-length'', value_from_usize H (length (cfg_body c)))#})
      \<and> rq_body req2 = cfg_body c \<and> rq_method req2 = run_method H c)
    \<and> (\<forall>req3. h3_request H c = Some req3 \<longrightarrow>
      mset (map_iter H (rq_headers req3)) = mset (base_headers H c) \<and> rq_body req3 = []
      \<and> rq_method req3 = run_method H c)"
proof -
  note laws = map_laws [OF assms]
  have copy: "mset (map_iter H m1) = mset (base_headers H c)"
    if "h2_static_headers H c = Some m" "append_all H (map_iter H m) (map_new H) = Some m1" for m m1
    using iter_append_all [OF assms that(2)] h2_static_headers_iter [OF assms that(1)] laws(1)
    by (simp add: base_headers_def)
  have "mset (map_iter H (rq_headers req)) = mset (base_headers H c) +
        (if cfg_body c = [] then {#}
         else {#(static_name H ''content-length'', value_from_usize H (length (cfg_body c)))#})
      \<and> rq_body req = cfg_body c \<and> rq_method req = run_method H c" if "h2_request H c = Some req" for req
    using that copy
    by (auto simp: h2_request_def build_h2_request_def Let_def dest: laws(8) split: Option.bind_splits if_splits)
  moreover have "mset (map_iter H (rq_headers req)) = mset (base_headers H c) \<and> rq_body req = []
      \<and> rq_method req = run_method H c" if "h3_request H c = Some req" for req
    using that copy by (auto simp: h3_request_def build_h3_request_def split: Option.bind_splits)
  moreover have "h2_request H c \<noteq> None \<longleftrightarrow> length (cfg_headers c) + 2 \<le> map_max H"
    "h3_request H c \<noteq> None \<longleftrightarrow> length (cfg_headers c) + 2 \<le> map_max H"
    unfolding h2_request_None [OF assms] h3_request_None [OF assms] by (simp_all add: not_less)
  ultimately show ?thesis by blast
qed

theorem h2_h3_request_contents_witness:
  "\<exists>req2 req3. h2_request list_lib plain_config = Some req2 \<and> rq_body req2 = ''abc'' \<and>
    h3_request list_lib plain_config = Some req3 \<and> rq_body req3 = []"
proof -
  have "length (cfg_headers plain_config) + 2 \<le> map_max list_lib" and body: "cfg_body plain_config = ''abc''"
    by (simp_all add: plain_config_def list_lib_def)
  with h2_h3_request_contents [OF list_lib_laws, of plain_config] obtain req2 req3 where
    "h2_request list_lib plain_config = Some req2" "h3_request list_lib plain_config = Some req3" by auto
  with h2_h3_request_contents [OF list_lib_laws, of plain_config] body show ?thesis by auto
qed

section \<open>Bytes\<close>

lemma header_bytes_loop_sum:
  "header_bytes_loop H hs n = n + (\<Sum>(k, v)\<leftarrow>hs. name_len H k + value_len H v + 4)"
  by (induction hs arbitrary: n) (auto simp: algebra_simps)

text \<open>C28: bytes of a response. The estimate is 18 bytes and, per header, its name, its value and 4 bytes;
  and draining a body adds up exactly the data frames, in however many polls the frames arrive and
  whatever trailers are among them, until the end or an error.\<close>

theorem response_bytes:
  assumes "list_all is_frame fs"
  shows "estimate_response_bytes H status m = 18 + (\<Sum>(k, v)\<leftarrow>map_iter H m. name_len H k + value_len H v + 4)
    \<and> drain_poll (fs @ End # gs) n = Ready_Ok (n + (\<Sum>f\<leftarrow>fs. frame_bytes f))
    \<and> drain_poll (fs @ Wait # gs) n = Pending (n + (\<Sum>f\<leftarrow>fs. frame_bytes f))
    \<and> drain_poll (fs @ Failed # gs) n = Ready_Err"
  by (simp add: estimate_response_bytes_def header_bytes_loop_sum drain_poll_frames [OF assms])

theorem response_bytes_witness: "drain_poll [Data 3, Trailers, Data 4, End] 0 = Ready_Ok 7"
  using response_bytes [of "[Data 3, Trailers, Data 4]" list_lib 200 "[]" "[]" 0] by (simp add: is_frame_def)

end
