(* ===== verification/Report.thy ===== *)
theory Report
  imports Config Stats_Moments Stats_Correct
begin

text \<open>
  The component \<open>src/report.rs\<close>: the text of the report. Each function returns what it prints;
  \<open>None\<close> is a panic of a query of the histogram.
\<close>

definition unit_pad :: "string \<Rightarrow> nat" where
  "unit_pad msg =
     (let len = length msg;
          pad = 2;
          pad = (if 1 \<le> len \<and> is_alpha (msg ! (len - 1)) then pad - 1 else pad);
          pad = (if 2 \<le> len \<and> is_alpha (msg ! (len - 2)) then pad - 1 else pad)
      in pad)"

definition print_units :: "f64 \<Rightarrow> (f64 \<Rightarrow> string) \<Rightarrow> nat \<Rightarrow> string" where
  "print_units n fmt width =
     (let msg = fmt n; pad = unit_pad msg; inner_width = width - pad
      in (if inner_width \<le> length msg then msg else pad_left inner_width msg) @ replicate pad CHR '' '')"

definition print_stats_header :: string where
  "print_stats_header = println (pad_left 14 ''Thread Stats'' @ pad_left 6 ''Avg'' @ pad_left 11 ''Stdev''
     @ pad_left 8 ''Max'' @ pad_left 12 ''+/- Stdev'')"

definition print_stats :: "string \<Rightarrow> stats \<Rightarrow> (f64 \<Rightarrow> string) \<Rightarrow> string option" where
  "print_stats name s fmt = do {
     let mx = st_max s;
     mean \<leftarrow> stats_mean s;
     stdev \<leftarrow> stats_stdev mean s;
     band \<leftarrow> stats_within_stdev mean stdev (lit 1) s;
     Some (''    '' @ pad_right 10 name @ print_units mean fmt 8 @ print_units stdev fmt 10
       @ print_units (f64_of_u64 mx) fmt 9 @ println (pad_left 8 (fmt_fixed 2 band) @ ''%''))
   }"

fun print_percentiles :: "f64 list \<Rightarrow> stats \<Rightarrow> string option" where
  "print_percentiles [] s = Some ''''"
| "print_percentiles (p # ps) s = do {
     n \<leftarrow> stats_percentile p s;
     rest \<leftarrow> print_percentiles ps s;
     Some (pad_left 7 (fmt_fixed 0 p) @ ''%'' @ println (print_units (f64_of_u64 n) format_time_us 10) @ rest)
   }"

definition print_stats_latency :: "stats \<Rightarrow> string option" where
  "print_stats_latency s = do {
     rows \<leftarrow> print_percentiles [lit 50, lit 75, lit 90, lit 99] s;
     Some (println ''  Latency Distribution'' @ rows)
   }"

record report =
  rp_complete :: u64
  rp_bytes :: u64
  rp_runtime_us :: u64
  rp_protocol :: resolved_version
  rp_errors_connect :: u64
  rp_errors_read :: u64
  rp_errors_write :: u64
  rp_errors_timeout :: u64
  rp_errors_status :: u64
  rp_latency :: stats
  rp_requests :: stats
  rp_print_latency :: bool

definition print_socket_errors :: "report \<Rightarrow> string" where
  "print_socket_errors r =
     (if rp_errors_connect r \<noteq> 0 \<or> rp_errors_read r \<noteq> 0 \<or> rp_errors_write r \<noteq> 0
         \<or> rp_errors_timeout r \<noteq> 0
      then println (''  Socket errors: connect '' @ show_u64 (rp_errors_connect r) @ '', read ''
        @ show_u64 (rp_errors_read r) @ '', write '' @ show_u64 (rp_errors_write r)
        @ '', timeout '' @ show_u64 (rp_errors_timeout r))
      else '''')"

definition print_status_errors :: "report \<Rightarrow> string" where
  "print_status_errors r =
     (if rp_errors_status r \<noteq> 0
      then println (''  Non-2xx or 3xx responses: '' @ show_u64 (rp_errors_status r)) else '''')"

definition print_report :: "report \<Rightarrow> string option" where
  "print_report r = do {
     let runtime_s = f64_of_u64 (rp_runtime_us r) / lit 1000000;
     let req_per_s = f64_of_u64 (rp_complete r) / runtime_s;
     let bytes_per_s = f64_of_u64 (rp_bytes r) / runtime_s;
     lat \<leftarrow> print_stats ''Latency'' (rp_latency r) format_time_us;
     req \<leftarrow> print_stats ''Req/Sec'' (rp_requests r) format_metric;
     dist \<leftarrow> (if rp_print_latency r then print_stats_latency (rp_latency r) else Some '''');
     Some (print_stats_header @ lat @ req @ dist
       @ println (''  '' @ show_u64 (rp_complete r) @ '' requests in '' @ format_time_us (f64_of_u64 (rp_runtime_us r))
           @ '', '' @ format_binary (f64_of_u64 (rp_bytes r)) @ ''B read ['' @ as_str (rp_protocol r) @ '']'')
       @ print_socket_errors r @ print_status_errors r
       @ println (''Requests/sec:'' @ pad_left 9 (fmt_fixed 2 req_per_s))
       @ println (''Transfer/sec:'' @ pad_left 10 (format_binary bytes_per_s) @ ''B''))
   }"

section \<open>No panic, and the width of a column\<close>

lemma print_stats_Some: "stats_safe s \<Longrightarrow> print_stats name s fmt \<noteq> None"
  unfolding print_stats_def Let_def by (intro bind_not_None queries_Some) simp_all

lemma print_percentiles_Some: "stats_safe s \<Longrightarrow> print_percentiles ps s \<noteq> None"
proof (induction ps)
  case (Cons p ps)
  then show ?case unfolding print_percentiles.simps by (intro bind_not_None queries_Some) simp_all
qed simp

lemma print_report_Some:
  assumes "stats_safe (rp_latency r)" "stats_safe (rp_requests r)"
  shows "print_report r \<noteq> None"
proof -
  have "print_stats_latency (rp_latency r) \<noteq> None"
    unfolding print_stats_latency_def using assms(1) by (intro bind_not_None print_percentiles_Some) simp_all
  then have "(if rp_print_latency r then print_stats_latency (rp_latency r) else Some '''') \<noteq> None" by simp
  then show ?thesis
    unfolding print_report_def Let_def using assms by (intro bind_not_None print_stats_Some) simp_all
qed

lemma unit_pad_le: "unit_pad msg \<le> 2"
  by (simp add: unit_pad_def Let_def)

lemma char_count_ascii: "\<forall>c \<in> set s. code c < 128 \<Longrightarrow> char_count s = length s"
  by (simp add: char_count_def)

lemma length_print_units:
  assumes "\<forall>c \<in> set (fmt n). code c < 128"
  shows "length (print_units n fmt width) = max (length (fmt n) + unit_pad (fmt n)) (max width (unit_pad (fmt n)))"
  by (auto simp: print_units_def pad_left_def char_count_ascii [OF assms] Let_def)

end
