(* ===== verification/Main_Run.thy ===== *)
theory Main_Run
  imports Worker Report
begin

text \<open>
  The component \<open>src/main.rs\<close>: resolving the protocol, setting a run up, and what happens once the
  workers are joined. What the network and the platform answer is an argument: a result that may
  time out is an option whose \<open>None\<close> is the timeout. The outcome \<open>None\<close> is a panic.
\<close>

definition MAX_THREAD_RATE_S :: u64 where "MAX_THREAD_RATE_S = 10000000"

section \<open>Resolving the protocol\<close>

text \<open>
  \<open>lookup\<close> is the list of addresses, if the lookup succeeded; \<open>started\<close> whether
  \<open>Endpoint::connect\<close> accepted the address; \<open>handshake\<close> the result of the handshake within a second.
\<close>

definition probe_quic :: "bool \<Rightarrow> bool \<Rightarrow> 'a list option \<Rightarrow> bool \<Rightarrow> bool option \<Rightarrow> bool" where
  "probe_quic runtime endpoint lookup started handshake =
     (if \<not> runtime then False
      else if \<not> endpoint then False
      else (case lookup of
              None \<Rightarrow> False
            | Some [] \<Rightarrow> False
            | Some (a # _) \<Rightarrow> if \<not> started then False else handshake = Some True))"

text \<open>\<open>tls\<close> is \<open>Some None\<close> for a failed handshake, else the protocol the server chose, if any.\<close>

definition probe_alpn :: "bool \<Rightarrow> bool option \<Rightarrow> bool \<Rightarrow> string option option option \<Rightarrow> string option" where
  "probe_alpn runtime tcp name_ok tls =
     (if \<not> runtime then None
      else if tcp \<noteq> Some True then None
      else if \<not> name_ok then None
      else (case tls of
              Some (Some alpn) \<Rightarrow>
                if alpn = Some ''h2'' then Some ''h2''
                else if alpn = Some ''http/1.1'' then Some ''http/1.1'' else None
            | _ \<Rightarrow> None))"

definition resolve_protocol :: "config \<Rightarrow> bool \<Rightarrow> string option \<Rightarrow> resolved_version \<times> string" where
  "resolve_protocol c quic alpn = (case cfg_http_version c of
     Http1 \<Rightarrow> (Res_Http1, '''')
   | Http2 \<Rightarrow> (Res_Http2, '''')
   | Http3 \<Rightarrow> (Res_Http3, '''')
   | Auto \<Rightarrow>
       if cfg_scheme c \<noteq> Https then (Res_Http1, '''')
       else if quic then (Res_Http3, println ''Negotiated HTTP/3 (QUIC)'')
       else if alpn = Some ''h2'' then (Res_Http2, println ''Negotiated HTTP/2'')
       else (Res_Http1, println ''Falling back to HTTP/1.1''))"

section \<open>TLS\<close>

text \<open>What the sources choose of a client configuration: whether certificates are verified, and the
  protocols offered.\<close>

record tls_config =
  tls_verify :: bool
  tls_alpn :: "string list"

definition build_tls :: "config \<Rightarrow> resolved_version \<Rightarrow> bool \<Rightarrow> (tls_config option \<times> string option) outcome" where
  "build_tls c resolved name_ok =
     (if cfg_scheme c \<noteq> Https then Done (None, None)
      else (let alpn = (case resolved of Res_Http2 \<Rightarrow> [''h2''] | Res_Http1 \<Rightarrow> [''http/1.1''] | Res_Http3 \<Rightarrow> []);
                connector = \<lparr>tls_verify = \<not> cfg_insecure c, tls_alpn = alpn\<rparr>
            in if name_ok then Done (Some connector, Some (cfg_host c))
               else Exit 1 '''' (println (''invalid TLS server name: '' @ cfg_host c))))"

text \<open>\<open>crypto\<close> and \<open>socket\<close> are the errors of the QUIC configuration and of binding the socket.\<close>

definition build_endpoint :: "bool \<Rightarrow> string option \<Rightarrow> string option \<Rightarrow> string + tls_config" where
  "build_endpoint insecure crypto socket =
     (case crypto of Some e \<Rightarrow> Inl e
      | None \<Rightarrow> (case socket of Some e \<Rightarrow> Inl e
                 | None \<Rightarrow> Inr \<lparr>tls_verify = \<not> insecure, tls_alpn = [''h3'']\<rparr>))"

section \<open>Setting up\<close>

definition print_run_header :: "config \<Rightarrow> string \<Rightarrow> string" where
  "print_run_header c time =
     (let proto = (case cfg_resolved c of Some r \<Rightarrow> as_str r | None \<Rightarrow> ''HTTP/1.1'');
          streams = (if cfg_resolved c = Some Res_Http3 \<or> cfg_resolved c = Some Res_Http2
                     then '', '' @ show_u64 (cfg_streams_per_conn c) @ '' streams/conn'' else '''')
      in println (''Running '' @ time @ '' test @ '' @ cfg_url c @ '' ['' @ proto @ streams @ '']'')
         @ println (''  '' @ show_u64 (cfg_threads c) @ '' threads and '' @ show_u64 (cfg_connections c) @ '' connections''))"

text \<open>The three kinds of workers, with what is passed to each of them.\<close>

datatype workers =
    Workers_H1 "tls_config option" "string option"
  | Workers_H2 tls_config string
  | Workers_H3 tls_config

record launch =
  su_cfg :: config
  su_latency :: stats
  su_requests :: stats
  su_header :: string
  su_per_thread :: u64
  su_workers :: workers

record platform =
  pf_quic :: bool
  pf_alpn :: "string option"
  pf_name_ok :: bool
  pf_runtime :: "string option"
  pf_crypto :: "string option"
  pf_socket :: "string option"
  pf_handle_size :: nat
  pf_spawn :: "nat \<Rightarrow> bool"

text \<open>\<open>Vec::with_capacity\<close> panics when its bytes exceed \<open>isize::MAX\<close>; \<open>pf_handle_size\<close> are those of a
  thread's \<open>JoinHandle\<close>.\<close>

definition vec_with_capacity :: "nat \<Rightarrow> u64 \<Rightarrow> unit option" where
  "vec_with_capacity bytes n = (if unat n * bytes < 2 ^ 63 then Some () else None)"

text \<open>\<open>std::thread::spawn\<close> panics when the platform refuses the thread; \<open>pf_spawn\<close> says of each.\<close>

definition spawn_threads :: "platform \<Rightarrow> u64 \<Rightarrow> unit option" where
  "spawn_threads P n = (if list_all (pf_spawn P) [0..<unat n] then Some () else None)"

definition worker_kind :: "platform \<Rightarrow> config \<Rightarrow> resolved_version \<Rightarrow> workers outcome option" where
  "worker_kind P c resolved = (case resolved of
     Res_Http3 \<Rightarrow> (case pf_runtime P of
         Some e \<Rightarrow> Some (Exit 1 '''' (println (''unable to create QUIC runtime: '' @ e)))
       | None \<Rightarrow> (case build_endpoint (cfg_insecure c) (pf_crypto P) (pf_socket P) of
           Inl e \<Rightarrow> Some (Exit 1 '''' (println (''unable to create QUIC endpoint: '' @ e)))
         | Inr ep \<Rightarrow> Some (Done (Workers_H3 ep))))
   | Res_Http2 \<Rightarrow> (case build_tls c resolved (pf_name_ok P) of
         Exit rc out err \<Rightarrow> Some (Exit rc out err)
       | Done (Some tls, Some name) \<Rightarrow> Some (Done (Workers_H2 tls name))
       | Done _ \<Rightarrow> None)
   | Res_Http1 \<Rightarrow> (case build_tls c resolved (pf_name_ok P) of
         Exit rc out err \<Rightarrow> Some (Exit rc out err)
       | Done (tls, name) \<Rightarrow> Some (Done (Workers_H1 tls name))))"

text \<open>Each branch ends with the loop that spawns the threads.\<close>

definition choose_workers :: "platform \<Rightarrow> config \<Rightarrow> resolved_version \<Rightarrow> workers outcome option" where
  "choose_workers P c resolved = do {
     kind \<leftarrow> worker_kind P c resolved;
     (case kind of
        Exit rc out err \<Rightarrow> Some (Exit rc out err)
      | Done w \<Rightarrow> do { _ \<leftarrow> spawn_threads P (cfg_threads c); Some (Done w) })
   }"

definition main_setup :: "platform \<Rightarrow> cli option \<Rightarrow> launch outcome option" where
  "main_setup P parsed = (case parse_args parsed of
     Exit rc out err \<Rightarrow> Some (Exit rc out err)
   | Done c \<Rightarrow> do {
       let (resolved, log) = resolve_protocol c (pf_quic P) (pf_alpn P);
       let c = c\<lparr>cfg_resolved := Some resolved\<rparr>;
       latency \<leftarrow> stats_alloc (saturating_mul (cfg_timeout c) 1000);
       requests \<leftarrow> stats_alloc MAX_THREAD_RATE_S;
       let header = print_run_header c (format_time_s (f64_of_u64 (cfg_duration c)));
       _ \<leftarrow> vec_with_capacity (pf_handle_size P) (cfg_threads c);
       chosen \<leftarrow> choose_workers P c resolved;
       Some (case chosen of
           Exit rc out err \<Rightarrow> Exit rc (header @ out) (log @ err)
         | Done w \<Rightarrow> Done \<lparr>su_cfg = c, su_latency = latency, su_requests = requests, su_header = header,
                        su_per_thread = cfg_connections c div cfg_threads c, su_workers = w\<rparr>)
     })"

text \<open>The run once \<open>main_setup\<close> has spawned all threads.\<close>

definition start_run :: "launch \<Rightarrow> (u64 \<Rightarrow> nat \<Rightarrow> 't worker) \<Rightarrow> nat \<Rightarrow> 't run" where
  "start_run su worker now = \<lparr>r_workers = replicate (unat (cfg_threads (su_cfg su))) (worker (su_per_thread su) now),
     r_latency = su_latency su, r_requests = su_requests su, r_stop = False, r_now = now, r_aborted = False\<rparr>"

text \<open>What the workers of an HTTP/1.1 run pass to their tasks.\<close>

definition launch_job :: "('n, 'v, 'm) http_lib \<Rightarrow> launch \<Rightarrow> ('n, 'v, 'm) job option" where
  "launch_job H su = (case su_workers su of
     Workers_H1 tls name \<Rightarrow> Some \<lparr>j_lib = H, j_cfg = su_cfg su, j_tls = tls \<noteq> None, j_sni = name \<noteq> None\<rparr>
   | _ \<Rightarrow> None)"

lemma start_slots:
  "slots (unat (cfg_threads (su_cfg su))) (unat (su_per_thread su)) (start_run su (start_worker t) now)"
  by (simp add: slots_def start_run_def start_worker_def)

context bench_task
begin

lemma start_ok:
  assumes "wf t" "pend t = 0" "stats_safe (su_latency su)" "stats_safe (su_requests su)" "st_count (su_latency su) = 0"
  shows "run_ok (start_run su (start_worker t) now) \<and> account (start_run su (start_worker t) now) = 0"
proof -
  have "net (start_worker t n now) = 0" "held (start_worker t n now) = 0" for n
    using assms(2) by (simp_all add: net_def held_def start_worker_def counters_default_def sum_list_replicate)
  then show ?thesis
    using assms by (auto simp: run_ok_def account_def start_run_def start_worker_def sum_list_replicate)
qed

end

section \<open>After the workers are joined\<close>

definition correct_omission :: "u64 \<Rightarrow> u64 \<Rightarrow> u64 \<Rightarrow> stats \<Rightarrow> stats option" where
  "correct_omission responses connections runtime_us latency =
     (case checked_div responses connections of
        None \<Rightarrow> Some latency
      | Some per_conn \<Rightarrow> (case checked_div runtime_us per_conn of
          None \<Rightarrow> Some latency
        | Some interval \<Rightarrow> stats_correct (as_i64 interval) latency))"

text \<open>A thread that panicked would leave the default snapshot; in a release build it ends the program.\<close>

definition joined :: "snapshot option \<Rightarrow> snapshot" where
  "joined h = (case h of Some s \<Rightarrow> s | None \<Rightarrow> snapshot_default)"

definition main_finish ::
    "config \<Rightarrow> resolved_version \<Rightarrow> snapshot option list \<Rightarrow> u64 \<Rightarrow> stats \<Rightarrow> stats \<Rightarrow> string option" where
  "main_finish c resolved handles runtime_us latency requests = do {
     let total = snapshot_sum (map joined handles);
     let responses = s_complete total;
     latency \<leftarrow> correct_omission responses (cfg_connections c) runtime_us latency;
     print_report \<lparr>rp_complete = responses, rp_bytes = s_bytes total, rp_runtime_us = runtime_us,
       rp_protocol = resolved, rp_errors_connect = s_errors_connect total,
       rp_errors_read = s_errors_read total, rp_errors_write = s_errors_write total,
       rp_errors_timeout = s_errors_timeout total, rp_errors_status = s_errors_status total,
       rp_latency = latency, rp_requests = requests, rp_print_latency = cfg_latency c\<rparr>
   }"

section \<open>What a successful set-up consists of\<close>

lemma main_setup_Done:
  assumes "main_setup P parsed = Some (Done su)"
  obtains c where "parse_args parsed = Done c"
    "su_cfg su = c\<lparr>cfg_resolved := Some (fst (resolve_protocol c (pf_quic P) (pf_alpn P)))\<rparr>"
    "stats_alloc (saturating_mul (cfg_timeout c) 1000) = Some (su_latency su)"
    "stats_alloc MAX_THREAD_RATE_S = Some (su_requests su)"
    "su_per_thread su = cfg_connections c div cfg_threads c"
    "choose_workers P (su_cfg su) (fst (resolve_protocol c (pf_quic P) (pf_alpn P))) = Some (Done (su_workers su))"
    "su_header su = print_run_header (su_cfg su) (format_time_s (f64_of_u64 (cfg_duration c)))"
  using assms
  by (auto simp: main_setup_def Let_def split: outcome.splits prod.splits Option.bind_splits)

end
