(* ===== verification/Run_Props.thy ===== *)
theory Run_Props
  imports Task_Props Main_Run Stats_Props
begin

text \<open>
  The properties of a run: the tasks of all workers, their counters and the shared histograms,
  from the spawning of the threads to the end of the last worker.
\<close>

definition fresh_shared :: "bool \<Rightarrow> shared" where
  "fresh_shared stop = \<lparr>sh_counters = counters_default, sh_rate = 5, sh_latency = hist_empty,
     sh_stop = stop, sh_now = 1000\<rparr>"

lemma fresh_shared_safe: "stats_safe (sh_latency (fresh_shared stop))"
  using stats_safe_alloc [OF run_example(1)] by (simp add: fresh_shared_def)

lemma plain_job_host: "h1_static_headers (j_lib plain_job) (j_cfg plain_job) \<noteq> None"
  by (simp add: h1_static_headers_def plain_job_def list_lib_def)

text \<open>A run in progress with one worker, for the witnesses.\<close>

definition small_run :: "'t list \<Rightarrow> bool \<Rightarrow> 't run" where
  "small_run ts stop = \<lparr>r_workers = [\<lparr>wk_tasks = ts, wk_counters = counters_default, wk_rate = 7,
     wk_start = 0, wk_exited = False\<rparr>], r_latency = hist_empty, r_requests = hist_empty,
     r_stop = stop, r_now = 0, r_aborted = False\<rparr>"

lemma small_run_simps [simp]:
  "length (r_workers (small_run ts stop)) = 1" "\<not> r_aborted (small_run ts stop)" "r_stop (small_run ts stop) = stop"
  "stats_safe (r_requests (small_run ts stop))" "stats_safe (r_latency (small_run ts stop))"
  "wk_rate (r_workers (small_run ts stop) ! 0) = 7" "\<not> wk_exited (r_workers (small_run ts stop) ! 0)"
  using stats_safe_alloc [OF run_example(1)] by (simp_all add: small_run_def)

lemma plain_request2: "h2_request (j_lib plain_job) (j_cfg plain_job) \<noteq> None"
  using h2_request_None [OF list_lib_laws, of plain_config] by (simp add: plain_job_def plain_config_def list_lib_def)

section \<open>Stopping\<close>

text \<open>C9: no request after the stop flag. Once \<open>stop\<close> is set, however the tasks of any protocol, the
  recorders and the clock go on, the rate counter of a worker, which every request bumps as it is
  sent, is only ever reset: no task starts another request.\<close>

theorem no_request_after_stop:
  fixes r1 :: "'m h1 run" and r2 :: "'m h2 run" and r3 :: "'m h3 run"
  shows "(r_stop r1 \<and> stats_safe (r_requests r1) \<and> k < length (r_workers r1) \<longrightarrow>
      wk_rate (r_workers (run_steps (h1_resume J) acts1 r1) ! k) \<in> {wk_rate (r_workers r1 ! k), 0}) \<and>
    (r_stop r2 \<and> stats_safe (r_requests r2) \<and> k < length (r_workers r2) \<longrightarrow>
      wk_rate (r_workers (run_steps (h2_resume J) acts2 r2) ! k) \<in> {wk_rate (r_workers r2 ! k), 0}) \<and>
    (r_stop r3 \<and> stats_safe (r_requests r3) \<and> k < length (r_workers r3) \<longrightarrow>
      wk_rate (r_workers (run_steps (h3_resume J3) acts3 r3) ! k) \<in> {wk_rate (r_workers r3 ! k), 0})"
  using h1_wind.rate_after_stop h2_wind.rate_after_stop h3_wind.rate_after_stop by blast

theorem no_request_after_stop_witness:
  "wk_rate (r_workers (run_steps (h1_resume plain_job) [Poll 0 0 (Ev_Handshake True), Clock 3]
     (small_run [H1_Handshaking] True)) ! 0) \<in> {7, 0}"
  using no_request_after_stop [THEN conjunct1, of "small_run [H1_Handshaking] True" 0 plain_job
      "[Poll 0 0 (Ev_Handshake True), Clock 3]"] by (simp del: run_steps_simps)

lemma h1_rank_done: "h1_rank t = 0 \<longleftrightarrow> t = H1_Done"
  by (cases t) simp_all

lemma h2_rank_done: "h2_rank n t = 0 \<longleftrightarrow> t = H2_Done"
  by (cases t) simp_all

lemma h3_rank_done: "h3_rank n t = 0 \<longleftrightarrow> t = H3_Done"
  by (cases t) simp_all

text \<open>
  On every sequence of events: no panic and no request; nothing of the local count is lost, and all of it
  has been flushed once the task has ended; and until it has, fewer than \<open>n\<close> of the events completed what
  it awaited, and it still awaits something.
\<close>

definition ends_within ::
    "('e \<Rightarrow> 't \<times> shared \<Rightarrow> ('t \<times> shared) option) \<Rightarrow> ('e \<Rightarrow> 't \<Rightarrow> bool) \<Rightarrow> ('t \<Rightarrow> u64) \<Rightarrow> 't \<Rightarrow> nat \<Rightarrow> 't \<times> shared \<Rightarrow> bool" where
  "ends_within resume completes pend ended n ts \<longleftrightarrow> (\<forall>es. \<exists>t' s'. run_task resume es ts = Some (t', s') \<and>
     sh_rate s' = sh_rate (snd ts) \<and> balance s' + pend t' = balance (snd ts) + pend (fst ts) \<and>
     (if t' = ended then balance s' = balance (snd ts) + pend (fst ts)
      else completions resume completes es ts < n \<and> (\<exists>e. completes e t')))"

context winding_task
begin

lemma ends_withinI:
  assumes "wf t" "stats_safe (sh_latency s)" "sh_stop s" "rank t \<le> n" "\<And>t. rank t = 0 \<longleftrightarrow> t = done'"
  shows "ends_within resume completes pend done' n (t, s)"
  unfolding ends_within_def
proof (rule allI)
  fix es
  obtain t' s' where run: "run_task resume es (t, s) = Some (t', s')"
    "completions resume completes es (t, s) + rank t' \<le> rank t"
    "balance s' + pend t' = balance s + pend t" "sh_rate s' = sh_rate s"
    using winds_down [OF assms(1-3)] by blast
  moreover have "t' = done' \<Longrightarrow> pend t' = 0" using assms(5) ended by blast
  moreover have "t' \<noteq> done' \<Longrightarrow> completions resume completes es (t, s) < n \<and> (\<exists>e. completes e t')"
    using run(2) assms(4) assms(5) [of t'] awaits [of t'] by auto
  ultimately show "\<exists>t' s'. run_task resume es (t, s) = Some (t', s') \<and> sh_rate s' = sh_rate (snd (t, s)) \<and>
     balance s' + pend t' = balance (snd (t, s)) + pend (fst (t, s)) \<and>
     (if t' = done' then balance s' = balance (snd (t, s)) + pend (fst (t, s))
      else completions resume completes es (t, s) < n \<and> (\<exists>e. completes e t'))" by auto
qed

end

text \<open>C6: tasks wind down. Once the stop flag is set, let any events whatever come to a task of any
  protocol, answers that succeed, answers that fail and polls that find nothing. The task never panics
  and sends no request. After at most 2 completions of what it awaits for HTTP/1.1, and at most twice
  the number of streams plus 4 (one for each stream plus 3 for HTTP/3) otherwise, it has ended;
  before that it awaits something that can complete. On whichever path it ended, it has flushed its
  whole local count: \<open>complete\<close> less timeouts less samples has grown by exactly that count. The
  only condition is that the task can build the headers of its connection: its host makes a \<open>Host\<close> header (HTTP/1.1),
  the \<open>-H\<close> headers fit into a header map (HTTP/2, HTTP/3).\<close>

theorem tasks_wind_down:
  assumes "sh_stop s" "stats_safe (sh_latency s)"
  shows "(h1_ready J t1 \<longrightarrow> ends_within (h1_resume J) h1_completes h1_pend H1_Done 2 (t1, s)) \<and>
    (h2_ready J t2 \<longrightarrow> ends_within (h2_resume J) h2_completes h2_pend H2_Done
      (2 * unat (cfg_streams_per_conn (j_cfg J)) + 4) (t2, s)) \<and>
    (h3_ready J3 t3 \<longrightarrow> ends_within (h3_resume J3) h3_completes h3_pend H3_Done
      (unat (cfg_streams_per_conn (j_cfg J3)) + 3) (t3, s))"
  using h1_wind.ends_withinI [OF _ assms(2,1) h1_rank_le h1_rank_done]
    h2_wind.ends_withinI [OF _ assms(2,1) h2_rank_le h2_rank_done]
    h3_wind.ends_withinI [OF _ assms(2,1) h3_rank_le h3_rank_done]
  unfolding h2_ready_def h3_ready_def by blast

theorem tasks_wind_down_witness:
  "\<exists>t' s'. run_task (h1_resume plain_job) [Ev_Connect True True, Ev_Timer, Ev_Handshake True] (H1_Connecting, fresh_shared True)
    = Some (t', s') \<and> sh_rate s' = 5 \<and> (t' = H1_Done \<longrightarrow> balance s' = 0)"
proof -
  have "sh_stop (fresh_shared True)" "sh_rate (fresh_shared True) = 5" "balance (fresh_shared True) = 0"
    by (simp_all add: fresh_shared_def balance_def counters_default_def hist_empty_def)
  moreover have "h1_ready plain_job H1_Connecting" using plain_job_host by (simp add: h1_ready_def)
  ultimately show ?thesis
    using tasks_wind_down [of "fresh_shared True" plain_job H1_Connecting H2_Done undefined H3_Done] fresh_shared_safe
    by (auto simp: ends_within_def dest!: spec [of _ "[Ev_Connect True True, Ev_Timer, Ev_Handshake True]"]
      simp del: run_task.simps completions.simps)
qed

text \<open>C7: how a worker ends. As long as \<open>stop\<close> is not set, no worker ends, whatever its tasks do; unless
  the program has panicked by then, the
  first turn of its recorder after \<open>stop\<close> ends it, whatever happened in between; and from then on
  nothing of it changes, so the snapshot that \<open>main\<close> sums is the one of that moment. The statement
  holds for the tasks of every protocol, and for any other.\<close>

theorem worker_stops:
  assumes "stats_safe (r_requests r)" "k < length (r_workers r)" "\<not> r_stop r" "\<not> wk_exited (r_workers r ! k)"
  shows "(Stop \<notin> set acts \<longrightarrow> \<not> wk_exited (r_workers (run_steps resume acts r) ! k)) \<and>
    (r_aborted (run_steps resume (acts @ Stop # acts1) r) \<or>
      wk_exited (r_workers (run_steps resume (acts @ Stop # acts1 @ [Sample k]) r) ! k)) \<and>
    r_workers (run_steps resume (acts @ Stop # acts1 @ Sample k # acts2) r) ! k
      = r_workers (run_steps resume (acts @ Stop # acts1 @ [Sample k]) r) ! k"
proof -
  define r0 where "r0 = run_step resume Stop (run_steps resume acts r)"
  define r1 where "r1 = run_steps resume acts1 r0"
  define r2 where "r2 = run_step resume (Sample k) r1"
  have r1: "stats_safe (r_requests r1)" "k < length (r_workers r1)"
    using run_steps_basic [of r resume acts] run_step_basic [of "run_steps resume acts r" resume Stop]
      run_steps_basic [of r0 resume acts1] assms unfolding r0_def r1_def by auto
  have r2: "stats_safe (r_requests r2)" "k < length (r_workers r2)"
    using run_step_basic [of r1 resume "Sample k"] r1 unfolding r2_def by auto
  have stopped: "wk_exited (r_workers r2 ! k)" if live: "\<not> r_aborted r1"
  proof -
    have "\<not> r_aborted (run_steps resume acts r)" using live aborted_stays [of "run_steps resume acts r"]
      unfolding r1_def r0_def by (cases "r_aborted (run_steps resume acts r)") (simp_all add: aborted_stays)
    then have "r_stop r0" "stats_safe (r_requests r0)"
      using run_steps_basic [of r resume acts] assms(1) by (simp_all add: r0_def)
    then have "r_stop r1" using run_steps_basic [of r0 resume acts1] unfolding r1_def by auto
    then show ?thesis unfolding r2_def by (rule sample_exits [OF r1 _ live])
  qed
  have eq: "run_steps resume (acts @ Stop # acts1 @ [Sample k]) r = r2" "run_steps resume (acts @ Stop # acts1) r = r1"
    "run_steps resume (acts @ Stop # acts1 @ Sample k # acts2) r = run_steps resume acts2 r2"
    by (simp_all add: r0_def r1_def r2_def del: run_step_simps)
  have "r_workers (run_steps resume acts2 r2) ! k = r_workers r2 ! k"
  proof (cases "r_aborted r1")
    case True
    then have "r_aborted r2" by (simp add: r2_def)
    then show ?thesis by (simp add: aborted_stays)
  qed (use exited_stays [OF r2 stopped] in simp)
  with stopped show ?thesis unfolding eq using running_stays [OF assms] by blast
qed

theorem worker_stops_witness:
  "wk_exited (r_workers (run_steps (h1_resume plain_job) [Clock 5, Stop, Clock 7, Sample 0]
     (small_run [H1_Start] False)) ! 0)"
proof -
  have "\<not> r_aborted (run_steps (h1_resume plain_job) ([Clock 5] @ Stop # [Clock 7]) (small_run [H1_Start] False))"
    by simp
  then show ?thesis
    using worker_stops [of "small_run [H1_Start] False" 0 "[Clock 5]" "h1_resume plain_job" "[Clock 7]" "[]"]
    by (simp del: run_steps_simps)
qed

section \<open>Accounting\<close>

definition unflushed :: "('t \<Rightarrow> u64) \<Rightarrow> 't run \<Rightarrow> u64" where
  "unflushed pend r = (\<Sum>w\<leftarrow>r_workers r. \<Sum>t\<leftarrow>wk_tasks w. pend t)"

text \<open>Every response is a sample or a timeout, and is in \<open>complete\<close> or in the local count of a task.\<close>

definition accounted :: "('t \<Rightarrow> u64) \<Rightarrow> 't run \<Rightarrow> bool" where
  "accounted pend r \<longleftrightarrow> (\<Sum>w\<leftarrow>r_workers r. k_complete (wk_counters w)) + unflushed pend r
     = st_count (r_latency r) + (\<Sum>w\<leftarrow>r_workers r. k_errors_timeout (wk_counters w))"

lemma setup_fresh:
  assumes "main_setup P parsed = Some (Done su)"
  shows "stats_safe (su_latency su) \<and> stats_safe (su_requests su) \<and> st_count (su_latency su) = 0"
proof -
  obtain c :: config where alloc: "stats_alloc (saturating_mul (cfg_timeout c) 1000) = Some (su_latency su)"
    "stats_alloc MAX_THREAD_RATE_S = Some (su_requests su)"
    by (rule main_setup_Done [OF assms]) blast
  have "st_count (su_latency su) = 0" using alloc(1) unfolding stats_alloc_Some_iff by simp
  then show ?thesis using alloc stats_safe_alloc by blast
qed

context bench_task
begin

lemma account_zero: "account r = 0 \<Longrightarrow> accounted pend r"
  by (simp add: account_def accounted_def unflushed_def net_def held_def sum_list_addf sum_list_subtractf algebra_simps)

lemma accounted_run:
  assumes "wf t" "pend t = 0" "main_setup P parsed = Some (Done su)"
  shows "accounted pend (run_steps resume acts (start_run su (start_worker t) now))"
  using start_ok [OF assms(1,2)] setup_fresh [OF assms(3)] run_steps_ok account_zero by metis

lemma tasks_wf_run:
  assumes "wf t" "pend t = 0" "main_setup P parsed = Some (Done su)"
  shows "\<forall>w \<in> set (r_workers (run_steps resume acts (start_run su (start_worker t) now))).
    \<forall>t' \<in> set (wk_tasks w). wf t'"
  using start_ok [OF assms(1,2)] setup_fresh [OF assms(3)] run_steps_ok unfolding run_ok_def by metis

end

text \<open>C1: no response is lost or counted twice while workers run. After any interleaving of task steps,
  recorder turns, clock ticks and the stop flag, for every protocol: the \<open>complete\<close> counters plus
  what the tasks have not flushed yet equal the samples of the latency histogram plus the timeouts.\<close>

theorem completed_responses_accounted:
  assumes "main_setup P parsed = Some (Done su)"
  shows "accounted h1_pend (run_steps (h1_resume J) acts1 (start_run su run_worker now)) \<and>
    accounted h2_pend (run_steps (h2_resume J) acts2 (start_run su run_h2_worker now)) \<and>
    accounted h3_pend (run_steps (h3_resume J3) acts3 (start_run su run_h3_worker now))"
  unfolding run_worker_def [abs_def] run_h2_worker_def [abs_def] run_h3_worker_def [abs_def]
  by (intro conjI h1.accounted_run [OF _ _ assms] h2.accounted_run [OF _ _ assms] h3.accounted_run [OF _ _ assms])
     simp_all

definition example_platform :: platform where
  "example_platform = \<lparr>pf_quic = False, pf_alpn = Some ''h2'', pf_name_ok = True, pf_runtime = None,
     pf_crypto = None, pf_socket = None, pf_handle_size = 24, pf_spawn = (\<lambda>k. k < 100)\<rparr>"

lemma setup_example: "\<exists>su. main_setup example_platform (Some example_cli) = Some (Done su)"
proof -
  obtain l where l: "stats_alloc (saturating_mul 2000 1000) = Some l"
    by (simp add: stats_alloc_Some_iff saturating_mul_def)
  obtain q where q: "stats_alloc MAX_THREAD_RATE_S = Some q"
    by (simp add: stats_alloc_Some_iff MAX_THREAD_RATE_S_def)
  show ?thesis
    using l q by (auto simp: main_setup_def parse_example example_config_def example_platform_def
        resolve_protocol_def choose_workers_def worker_kind_def vec_with_capacity_def spawn_threads_def
        list_all_iff build_tls_def Let_def)
qed

theorem completed_responses_accounted_witness:
  "\<exists>su. main_setup example_platform (Some example_cli) = Some (Done su) \<and>
    accounted h1_pend (run_steps (h1_resume plain_job)
      [Poll 0 0 Ev_Run, Poll 0 0 (Ev_Connect True True), Poll 0 0 (Ev_Handshake True), Clock 900, Stop, Sample 0]
      (start_run su run_worker 0))"
  using setup_example completed_responses_accounted by blast

text \<open>C13: the shape of a run. At every moment there are as many workers as threads, each with
  \<open>connections / threads\<close> connections; together they are at most the connections asked for, and
  fewer only by less than the number of threads. Every HTTP/2 and HTTP/3 connection that is up has
  exactly \<open>--streams\<close> streams, and over every protocol each request in flight is the one that the
  configuration describes.\<close>

theorem run_shape:
  assumes "main_setup P parsed = Some (Done su)"
    and "m = unat (cfg_threads (su_cfg su))" "n = unat (su_per_thread su)"
    and "r1 = run_steps (h1_resume J) acts1 (start_run su run_worker now)"
    and "r2 = run_steps (h2_resume J) acts2 (start_run su run_h2_worker now)"
    and "r3 = run_steps (h3_resume J3) acts3 (start_run su run_h3_worker now)"
  shows "slots m n r1 \<and> slots m n r2 \<and> slots m n r3 \<and>
    0 < n \<and> m * n \<le> unat (cfg_connections (su_cfg su)) \<and> unat (cfg_connections (su_cfg su)) < m * n + m \<and>
    (\<forall>w \<in> set (r_workers r1). \<forall>t \<in> set (wk_tasks w). h1_wf J t) \<and>
    (\<forall>w \<in> set (r_workers r2). \<forall>t \<in> set (wk_tasks w). h2_wf J t) \<and>
    (\<forall>w \<in> set (r_workers r3). \<forall>t \<in> set (wk_tasks w). h3_wf J3 t)"
proof -
  obtain c p where made: "parse_args parsed = Done c" "su_cfg su = c\<lparr>cfg_resolved := p\<rparr>"
    "su_per_thread su = cfg_connections c div cfg_threads c"
    by (rule main_setup_Done [OF assms(1)]) blast
  then have c: "parse_args parsed = Done c" "cfg_threads (su_cfg su) = cfg_threads c"
    "cfg_connections (su_cfg su) = cfg_connections c" "su_per_thread su = cfg_connections c div cfg_threads c"
    by simp_all
  have valid: "valid_config c" "0 < cfg_connections c div cfg_threads c"
    using parse_args_valid [OF c(1)] valid_config_div by blast+
  have m: "m = unat (cfg_threads c)" and n: "n = unat (cfg_connections c) div m"
    using assms(2,3) c by (simp_all add: unat_div)
  have pos: "0 < m" "0 < n"
    using valid assms(3) c(4) by (simp_all add: m word_less_nat_alt valid_config_def)
  have bounds: "m * n \<le> unat (cfg_connections c)" "unat (cfg_connections c) < m * n + m"
    using mod_less_divisor [OF pos(1), of "unat (cfg_connections c)"] mult_div_mod_eq [of m "unat (cfg_connections c)"]
    unfolding n by linarith+
  have "\<forall>w \<in> set (r_workers r1). \<forall>t \<in> set (wk_tasks w). h1_wf J t"
    "\<forall>w \<in> set (r_workers r2). \<forall>t \<in> set (wk_tasks w). h2_wf J t"
    "\<forall>w \<in> set (r_workers r3). \<forall>t \<in> set (wk_tasks w). h3_wf J3 t"
    unfolding assms(4-6) run_worker_def [abs_def] run_h2_worker_def [abs_def] run_h3_worker_def [abs_def]
    by (rule h1.tasks_wf_run [OF _ _ assms(1)] h2.tasks_wf_run [OF _ _ assms(1)] h3.tasks_wf_run [OF _ _ assms(1)]; simp)+
  with pos(2) bounds show ?thesis
    unfolding assms(2-6) c(3) run_worker_def [abs_def] run_h2_worker_def [abs_def] run_h3_worker_def [abs_def]
    by (simp add: slots_steps start_slots)
qed

theorem run_shape_witness: "\<exists>su. main_setup example_platform (Some example_cli) = Some (Done su) \<and> 0 < unat (su_per_thread su)"
  using setup_example run_shape by blast

section \<open>Timeouts\<close>

lemma timeout_limit:
  assumes "stats_alloc (saturating_mul ms 1000) = Some h" "ns \<le> from_millis ms"
  shows "as_micros_u64 ns < st_limit h"
proof -
  have lim: "unat (st_limit h) = unat (saturating_mul ms (1000 :: u64)) + 1" "unat (st_limit h) < 2 ^ 60"
    using represents_alloc [OF assms(1)] stats_safe_alloc [OF assms(1)] by (simp_all add: stats_safe_def)
  have "unat (saturating_mul ms (1000 :: u64)) = min (unat ms * 1000) (2 ^ 64 - 1)"
    by (simp add: unat_saturating_mul)
  then have "unat (saturating_mul ms (1000 :: u64)) = unat ms * 1000" using lim by simp
  then show ?thesis using micros_within [OF assms(2)] lim(1) by (simp add: word_less_nat_alt)
qed

lemma record_latency_below:
  assumes "record_latency us s = Some s'" "stats_safe (sh_latency s)" "us < st_limit (sh_latency s)"
  shows "stats_record us (sh_latency s) = Some (True, sh_latency s') \<and> sh_counters s' = sh_counters s"
  using assms stats_record_Some [OF assms(2), of us]
  by (auto simp: record_latency_def Let_def)

lemma counter_simps [simp]:
  "k_errors_timeout (sh_counters (add_complete n s)) = k_errors_timeout (sh_counters s)"
  "k_errors_timeout (sh_counters (add_bytes n s)) = k_errors_timeout (sh_counters s)"
  "k_errors_timeout (sh_counters (inc_status s)) = k_errors_timeout (sh_counters s)"
  "k_errors_timeout (sh_counters (inc_rate s)) = k_errors_timeout (sh_counters s)"
  "k_errors_timeout (sh_counters (inc_timeout s)) = k_errors_timeout (sh_counters s) + 1"
  by (simp_all add: step_defs)

text \<open>What becomes of a response to a request that was sent at \<open>start\<close>, with a timeout of \<open>ms\<close>.\<close>

definition judged :: "u64 \<Rightarrow> nat \<Rightarrow> shared \<Rightarrow> shared \<Rightarrow> bool" where
  "judged ms start s s' \<longleftrightarrow> (if sh_now s - start \<le> from_millis ms
    then k_errors_timeout (sh_counters s') = k_errors_timeout (sh_counters s) \<and>
      stats_record (as_micros_u64 (sh_now s - start)) (sh_latency s) = Some (True, sh_latency s')
    else k_errors_timeout (sh_counters s') = k_errors_timeout (sh_counters s) + 1 \<and>
      sh_latency s' = sh_latency s)"

definition same_figures :: "shared \<Rightarrow> shared \<Rightarrow> bool" where
  "same_figures s s' \<longleftrightarrow> sh_latency s' = sh_latency s
     \<and> k_errors_timeout (sh_counters s') = k_errors_timeout (sh_counters s)"

lemma next_same:
  "h1_top s = Some (t1, s1) \<Longrightarrow> same_figures s s1"
  "h1_next J l s = Some (t1, s1) \<Longrightarrow> same_figures s s1"
  "h2_next J l s = Some (t2, s2) \<Longrightarrow> same_figures s s2"
  "h3_next req l s = (t3, s3) \<Longrightarrow> same_figures s s3"
  by (auto simp: same_figures_def h1_top_def h1_next_def h2_next_def h3_next_def split: if_splits Option.bind_splits)

lemma judgedI:
  assumes alloc: "stats_alloc (saturating_mul ms 1000) = Some h0"
    and safe: "stats_safe (sh_latency s)" "st_limit (sh_latency s) = st_limit h0" and same: "same_figures s s2"
    and late: "from_millis ms < sh_now s - start \<Longrightarrow> same_figures (inc_timeout s2) s'"
    and timely: "\<not> from_millis ms < sh_now s - start \<Longrightarrow>
      \<exists>s3. record_latency (as_micros_u64 (sh_now s - start)) s2 = Some s3 \<and> same_figures s3 s'"
  shows "judged ms start s s'"
proof (cases "from_millis ms < sh_now s - start")
  case True
  with late [OF True] same show ?thesis by (simp add: judged_def same_figures_def)
next
  case False
  then obtain s3 where s3: "record_latency (as_micros_u64 (sh_now s - start)) s2 = Some s3" "same_figures s3 s'"
    using timely by blast
  have "as_micros_u64 (sh_now s - start) < st_limit (sh_latency s2)"
    using timeout_limit [OF alloc, of "sh_now s - start"] False safe same by (simp add: same_figures_def)
  from record_latency_below [OF s3(1) _ this] s3(2) safe same False show ?thesis
    by (simp add: judged_def same_figures_def)
qed

text \<open>C5: a response within the timeout is a sample. With the histogram that \<open>main\<close> allocates for the
  timeout, in every protocol, a response that took at most the timeout is recorded, at its
  microseconds, and never counted as a timeout; one that took longer is one timeout more and no sample.\<close>

theorem timely_response_recorded:
  assumes "cfg_timeout (j_cfg J) = ms" "cfg_timeout (j_cfg J3) = ms"
    and "stats_alloc (saturating_mul ms 1000) = Some h0"
    and "stats_safe (sh_latency s)" "st_limit (sh_latency s) = st_limit h0"
  shows "(h1_respond J l start st hs n s = Some (t1, s1) \<longrightarrow> judged ms start s s1) \<and>
    (h2_respond J l start st hs n s = Some (t2, s2) \<longrightarrow> judged ms start s s2) \<and>
    (h3_respond J3 req l start st n s = Some (t3, s3) \<longrightarrow> judged ms start s s3)"
proof (intro conjI impI)
  define s' where "s' = (let s1 = add_bytes (estimate_response_bytes (j_lib J) st hs + n) s
    in if 399 < st then inc_status s1 else s1)"
  have same: "same_figures s s'" by (simp add: s'_def Let_def same_figures_def)
  have eq: "h1_respond J l start st hs n s =
    (if from_millis ms < sh_now s - start then h1_top (add_complete (l + 1) (inc_timeout s'))
     else do { s3 \<leftarrow> record_latency (as_micros_u64 (sh_now s - start)) s'; h1_next J (l + 1) s3 })"
    "h2_respond J l start st hs n s =
    (if from_millis ms < sh_now s - start then Some (S2_Done, add_complete (l + 1) (inc_timeout s'))
     else do { s3 \<leftarrow> record_latency (as_micros_u64 (sh_now s - start)) s'; h2_next J (l + 1) s3 })"
    using assms(1) by (simp_all add: h1_respond_def h2_respond_def s'_def Let_def)
  show "judged ms start s s1" if "h1_respond J l start st hs n s = Some (t1, s1)"
    using that unfolding eq
    by (intro judgedI [OF assms(3-5) same])
       (auto split: Option.bind_splits dest!: next_same(1,2) simp: same_figures_def)
  show "judged ms start s s2" if "h2_respond J l start st hs n s = Some (t2, s2)"
    using that unfolding eq
    by (intro judgedI [OF assms(3-5) same])
       (auto split: Option.bind_splits dest!: next_same(3) simp: same_figures_def)
next
  define s' where "s' = (if 399 < st then inc_status s else s)"
  have same: "same_figures s s'" by (simp add: s'_def same_figures_def)
  have eq: "h3_respond J3 req l start st n s =
    (if from_millis ms < sh_now s - start then Some (h3_next req (l + 1) (inc_timeout s'))
     else do { s3 \<leftarrow> record_latency (as_micros_u64 (sh_now s - start)) s'; Some (h3_next req (l + 1) (add_bytes n s3)) })"
    using assms(2) by (simp add: h3_respond_def s'_def Let_def)
  show "judged ms start s s3" if "h3_respond J3 req l start st n s = Some (t3, s3)"
    using that unfolding eq
    by (intro judgedI [OF assms(3-5) same])
       (auto split: Option.bind_splits dest!: next_same(4) simp: same_figures_def)
qed

theorem timely_response_recorded_witness:
  "\<exists>h t' s'. stats_alloc (saturating_mul 2000 1000) = Some h
    \<and> h2_respond plain_job 0 0 200 [] 7 ((fresh_shared True)\<lparr>sh_latency := h\<rparr>) = Some (t', s')
    \<and> stats_record 1 h = Some (True, sh_latency s')"
proof -
  obtain h where h: "stats_alloc (saturating_mul 2000 1000) = Some h"
    by (simp add: stats_alloc_Some_iff saturating_mul_def)
  let ?s = "(fresh_shared True)\<lparr>sh_latency := h\<rparr>"
  let ?J3 = "\<lparr>j_lib = list_lib, j_cfg = plain_config, j_tls = False, j_sni = False, j_quic = True\<rparr>"
  have safe: "stats_safe (sh_latency ?s)" using stats_safe_alloc [OF h] by simp
  have ms: "cfg_timeout (j_cfg plain_job) = 2000" "cfg_timeout (j_cfg ?J3) = 2000"
    by (simp_all add: plain_job_def plain_config_def example_config_def)
  obtain t' s' where r: "h2_respond plain_job 0 0 200 [] 7 ?s = Some (t', s')"
    using h2_respond_ok [OF safe, of plain_job 0 0 200 "[]" 7] plain_request2 by blast
  have "as_micros_u64 1000 = 1" by (simp add: as_micros_u64_def)
  then have "stats_record 1 h = Some (True, sh_latency s')"
    using timely_response_recorded [OF ms, of h ?s 0 0 200 "[]" 7 _ _ t' s'] h safe r
    by (simp add: fresh_shared_def from_millis_def judged_def)
  with h r show ?thesis by blast
qed

end
