(* ===== verification/Main_Props.thy ===== *)
theory Main_Props
  imports Run_Props
begin

text \<open>
  The properties of \<open>src/main.rs\<close> and of what it composes: the set-up of a run, the target of the
  requests, the recorded rates, and the report.
\<close>

section \<open>Setting up\<close>

lemma resolve_https:
  "valid_config c \<Longrightarrow> fst (resolve_protocol c quic alpn) \<noteq> Res_Http1 \<Longrightarrow> cfg_scheme c = Https"
  by (auto simp: resolve_protocol_def valid_config_def split: http_version.splits if_splits)








text \<open>C16: the set-up fits the configuration. The workers are those of the resolved protocol; HTTP/2 and
  HTTP/3 are only ever used for \<open>https\<close>; a TLS configuration verifies certificates exactly when
  \<open>--insecure\<close> was not given, offers the one protocol that was resolved and carries the host of the
  URL; plain \<open>http\<close> gets none.\<close>

theorem launch_consistent:
  assumes "main_setup P parsed = Some (Done su)"
  shows "case su_workers su of
      Workers_H1 tls name \<Rightarrow> cfg_resolved (su_cfg su) = Some Res_Http1 \<and>
        (if cfg_scheme (su_cfg su) = Https
         then tls = Some \<lparr>tls_verify = \<not> cfg_insecure (su_cfg su), tls_alpn = [''http/1.1'']\<rparr>
           \<and> name = Some (cfg_host (su_cfg su))
         else tls = None \<and> name = None)
    | Workers_H2 tls name \<Rightarrow> cfg_resolved (su_cfg su) = Some Res_Http2 \<and> cfg_scheme (su_cfg su) = Https \<and>
        tls = \<lparr>tls_verify = \<not> cfg_insecure (su_cfg su), tls_alpn = [''h2'']\<rparr> \<and> name = cfg_host (su_cfg su)
    | Workers_H3 tls \<Rightarrow> cfg_resolved (su_cfg su) = Some Res_Http3 \<and> cfg_scheme (su_cfg su) = Https \<and>
        tls = \<lparr>tls_verify = \<not> cfg_insecure (su_cfg su), tls_alpn = [''h3'']\<rparr>"
proof -
  obtain c where c: "parse_args parsed = Done c"
    "su_cfg su = c\<lparr>cfg_resolved := Some (fst (resolve_protocol c (pf_quic P) (pf_alpn P)))\<rparr>"
    "choose_workers P (su_cfg su) (fst (resolve_protocol c (pf_quic P) (pf_alpn P))) = Some (Done (su_workers su))"
    by (rule main_setup_Done [OF assms]) blast
  have "cfg_scheme c = Https" if "fst (resolve_protocol c (pf_quic P) (pf_alpn P)) \<noteq> Res_Http1"
    using resolve_https [OF parse_args_valid [OF c(1)] that] .
  with c(3) show ?thesis
    by (cases "fst (resolve_protocol c (pf_quic P) (pf_alpn P))"; cases "su_workers su")
       (auto simp: c(2) choose_workers_def worker_kind_def build_tls_def build_endpoint_def Let_def
          split: option.splits sum.splits if_splits outcome.splits Option.bind_splits)
qed

theorem launch_consistent_witness:
  "\<exists>su. main_setup example_platform (Some example_cli) = Some (Done su) \<and>
    su_workers su = Workers_H2 \<lparr>tls_verify = True, tls_alpn = [''h2'']\<rparr> ''localhost''"
proof -
  obtain su where su: "main_setup example_platform (Some example_cli) = Some (Done su)"
    using setup_example by blast
  then have "su_cfg su = example_config\<lparr>cfg_resolved := Some Res_Http2\<rparr>"
    using main_setup_Done [OF su] parse_example
    by (auto simp: resolve_protocol_def example_config_def example_platform_def)
  with launch_consistent [OF su] su show ?thesis
    by (auto simp: example_config_def split: workers.splits)
qed

text \<open>C25: the protocol. A version that was asked for is used; with \<open>auto\<close>, an \<open>https\<close> target is probed for
  HTTP/3 first and for HTTP/2 next, a probe succeeds only if every one of its steps did, and anything
  else is HTTP/1.1. Whatever is resolved, HTTP/2 and HTTP/3 imply \<open>https\<close>.\<close>

theorem protocol_resolution:
  assumes "parse_args parsed = Done c"
    and "quic = probe_quic rt endpoint addrs started hs" "alpn = probe_alpn rt2 tcp name_ok tls"
  shows "(fst (resolve_protocol c quic alpn) = Res_Http3 \<longleftrightarrow> cfg_http_version c = Http3 \<or>
      cfg_http_version c = Auto \<and> cfg_scheme c = Https \<and> rt \<and> endpoint \<and> started \<and> hs = Some True \<and>
        (\<exists>a as. addrs = Some (a # as))) \<and>
    (fst (resolve_protocol c quic alpn) = Res_Http2 \<longleftrightarrow> cfg_http_version c = Http2 \<or>
      cfg_http_version c = Auto \<and> cfg_scheme c = Https \<and> \<not> quic \<and> rt2 \<and> tcp = Some True \<and> name_ok \<and>
        tls = Some (Some (Some ''h2''))) \<and>
    (cfg_scheme c = Http \<longrightarrow> fst (resolve_protocol c quic alpn) = Res_Http1)"
proof -
  have quic: "quic \<longleftrightarrow> rt \<and> endpoint \<and> started \<and> hs = Some True \<and> (\<exists>a as. addrs = Some (a # as))"
    by (auto simp: assms(2) probe_quic_def split: option.splits list.splits)
  have alpn: "alpn = Some ''h2'' \<longleftrightarrow> rt2 \<and> tcp = Some True \<and> name_ok \<and> tls = Some (Some (Some ''h2''))"
    by (auto simp: assms(3) probe_alpn_def split: option.splits)
  have http: "cfg_scheme c = Http \<longrightarrow> cfg_http_version c \<notin> {Http2, Http3}"
    using parse_args_valid [OF assms(1)] by (auto simp: valid_config_def)
  show ?thesis
    using http unfolding quic [symmetric] alpn [symmetric]
    by (cases "cfg_http_version c"; cases "cfg_scheme c") (auto simp: resolve_protocol_def)
qed

theorem protocol_resolution_witness:
  "fst (resolve_protocol example_config (probe_quic True True (Some [1 :: nat]) True None)
    (probe_alpn True (Some True) True (Some (Some (Some ''h2''))))) = Res_Http2"
  using protocol_resolution [OF parse_example refl refl, of True True "Some [1 :: nat]" True None True "Some True" True
      "Some (Some (Some ''h2''))"]
  by (simp add: example_config_def probe_quic_def)

section \<open>Targets\<close>












section \<open>Rates\<close>

lemma unat_word_of_int: "0 \<le> k \<Longrightarrow> k < 2 ^ 64 \<Longrightarrow> int (unat (word_of_int k :: u64)) = k"
  by (simp add: unsigned_of_int take_bit_int_eq_self)

text \<open>The two roundings of \<open>reqs / ms * 1000\<close>, in the range where they are small.\<close>

lemma rate_error:
  fixes x :: rat
  assumes "0 \<le> x" "x \<le> 2 ^ 40"
  shows "\<bar>rnd (rnd x * 1000) - x * 1000\<bar> < 1 / 2 \<and> rnd x * 1000 \<le> 2 ^ 51 \<and> 0 \<le> rnd x * 1000
    \<and> 0 \<le> rnd (rnd x * 1000) \<and> rnd (rnd x * 1000) < 2 ^ 64"
proof -
  have p: "p2 (- 13) = 1 / 8192" "p2 (- 2) = 1 / 4" "p2 41 = 2199023255552" "p2 52 = 4503599627370496"
    by (simp_all add: power_int_def power_one_over)
  have x: "x \<le> 1099511627776" using assms(2) by simp
  have "\<bar>rnd x - x\<bar> \<le> p2 (40 - 53)"
    using assms(1) x p(3) by (intro rnd_error_below) simp_all
  then have e1: "\<bar>rnd x - x\<bar> \<le> 1 / 8192" using p(1) by simp
  have nonneg: "0 \<le> rnd x * 1000" using assms(1) by simp
  have le: "rnd x * 1000 \<le> 2251799813685248" using e1 x by linarith
  have "\<bar>rnd (rnd x * 1000) - rnd x * 1000\<bar> \<le> p2 (51 - 53)"
    using nonneg le p(4) by (intro rnd_error_below) simp_all
  then have e2: "\<bar>rnd (rnd x * 1000) - rnd x * 1000\<bar> \<le> 1 / 4" using p(2) by simp
  have err: "\<bar>rnd (rnd x * 1000) - x * 1000\<bar> < 1 / 2" using e1 e2 by linarith
  then have "rnd (rnd x * 1000) < 18446744073709551616" using x by linarith
  with err nonneg le show ?thesis by simp
qed

text \<open>C26: the recorded rate. The recorder divides, multiplies and truncates in floating point; as long as
  both figures are at most \<open>2^40\<close>, the recorded rate is off the exact requests per second by at
  most one, and it can be one too small: 201 requests in 100 ms are recorded as 2009 per second.\<close>

theorem request_rate_close:
  assumes "unat reqs \<le> 2 ^ 40" "ns div 1000000 \<le> 2 ^ 40"
  shows "unat reqs * 1000 div max (ns div 1000000) 1 \<le> unat (request_rate reqs ns) + 1 \<and>
    unat (request_rate reqs ns) \<le> unat reqs * 1000 div max (ns div 1000000) 1 + 1 \<and>
    request_rate 201 (100 * 1000000) = 2009"
proof -
  define n where "n = unat reqs"
  define e where "e = max (ns div 1000000) 1"
  let ?x = "of_nat n / of_nat e :: rat"
  let ?y = "rnd (rnd ?x * 1000)"
  have n: "n \<le> 2 ^ 40" and e: "1 \<le> e" "e \<le> 2 ^ 40" using assms by (simp_all add: n_def e_def)
  have "e < 2 ^ 64" using e(2) by simp
  then have ue: "unat (word_of_nat e :: u64) = e" by (simp add: unat_of_nat)
  have fe: "f64_of_u64 (word_of_nat e) = Finite False (of_nat e)"
    using f64_of_u64_small [of "word_of_nat e"] e(2) unfolding ue by simp
  have fr: "f64_of_u64 reqs = Finite False (of_nat n)"
    using f64_of_u64_small [of reqs] n unfolding n_def by simp
  have "?x \<le> of_nat n / 1" using e(1) by (intro divide_left_mono) simp_all
  also have "\<dots> \<le> of_nat (2 ^ 40)" using n by (simp only: div_by_1 of_nat_le_iff)
  finally have x: "0 \<le> ?x" "?x \<le> 2 ^ 40" by simp_all
  note err = rate_error [OF x]
  have big: "(2 :: rat) ^ 51 \<le> p2 200" using p2_mono [of 51 200] by (simp add: power_int_def)
  have "f64_of_u64 reqs / f64_of_u64 (word_of_nat e) = Finite False (rnd ?x)"
    unfolding fe fr using x big e(1) by (intro f64_div_pos) simp_all
  moreover have "Finite False (rnd ?x) * Finite False 1000 = Finite False ?y"
    using x err big by (intro f64_mul_pos) simp_all
  moreover have "lit 1000 = Finite False 1000" by (rule lit_numeral) simp
  ultimately have "request_rate reqs ns = f64_as_u64 (Finite False ?y)"
    by (simp only: request_rate_def Let_def e_def [symmetric])
  moreover have y: "0 \<le> ?y" "?y < 2 ^ 64" using err by simp_all
  ultimately have rate: "int (unat (request_rate reqs ns)) = \<lfloor>?y\<rfloor>"
    using unat_word_of_int [of "\<lfloor>?y\<rfloor>"] by (simp add: floor_less_iff not_le)
  have "?x * 1000 = of_nat (n * 1000) / of_nat e" by simp
  then have quot: "int (n * 1000 div e) = \<lfloor>?x * 1000\<rfloor>"
    using floor_divide_of_nat_eq [of "n * 1000" e, where 'a = rat] by simp
  have "\<bar>\<lfloor>?y\<rfloor> - \<lfloor>?x * 1000\<rfloor>\<bar> \<le> 1" using err by linarith
  then have close: "n * 1000 div e \<le> unat (request_rate reqs ns) + 1" "unat (request_rate reqs ns) \<le> n * 1000 div e + 1"
    using rate quot by linarith+
  have "f64_as_u64 (f64_of_u64 201 / f64_of_u64 100 * lit 1000) = 2009" by code_simp
  then have "request_rate 201 (100 * 1000000) = 2009" by (simp add: request_rate_def)
  with close show ?thesis unfolding n_def e_def by blast
qed

theorem request_rate_close_witness: "unat (request_rate 201 (101 * 1000000)) \<le> 1991"
  using request_rate_close [of 201 "101 * 1000000"] by simp

section \<open>The report\<close>

lemma checked_div_None: "checked_div a b = None \<longleftrightarrow> b = (0 :: u64)"
  by (simp add: checked_div_def)

lemma correct_omission_Some:
  assumes "stats_safe s"
  shows "\<exists>s'. correct_omission n k us s = Some s' \<and> stats_safe s' \<and> (n < k \<longrightarrow> s' = s)"
proof (cases "k = 0 \<or> n div k = 0 \<or> k = 0")
  case True
  then have "correct_omission n k us s = Some s"
    by (auto simp: correct_omission_def checked_div_def split: option.splits)
  with assms show ?thesis by blast
next
  case False
  then have eq: "correct_omission n k us s = stats_correct (as_i64 (us div (n div k))) s"
    by (simp add: correct_omission_def checked_div_def)
  have "as_i64 w < 2 ^ 63" for w using sint_lt [of w] by (simp add: as_i64_def)
  then obtain s' where "stats_correct (as_i64 (us div (n div k))) s = Some s'" "stats_safe s'"
    using stats_correct_safe [OF assms] by blast
  moreover have "n < k \<Longrightarrow> n div k = 0" by (metis div_less unat_div unat_eq_zero word_less_nat_alt)
  then have "\<not> n < k" using False by blast
  ultimately show ?thesis unfolding eq by blast
qed

text \<open>The sum of a figure over the threads that returned.\<close>

definition total_of :: "snapshot option list \<Rightarrow> (snapshot \<Rightarrow> u64) \<Rightarrow> u64" where
  "total_of handles f = (\<Sum>h\<leftarrow>handles. case h of None \<Rightarrow> 0 | Some s \<Rightarrow> f s)"

text \<open>C20: the report is printed. Once the workers are joined, \<open>main\<close> always reaches the end: the totals are
  the sums over the threads, where one that panicked counts nothing; the correction for coordinated
  omission succeeds, and changes nothing when fewer responses than connections were completed; and
  no query of the histograms panics.\<close>

theorem report_is_printed:
  assumes "stats_safe latency" "stats_safe requests"
  shows "\<exists>latency' text. correct_omission (total_of handles s_complete) (cfg_connections c) us latency = Some latency' \<and>
    (total_of handles s_complete < cfg_connections c \<longrightarrow> latency' = latency) \<and>
    main_finish c resolved handles us latency requests = Some text \<and>
    print_report \<lparr>rp_complete = total_of handles s_complete, rp_bytes = total_of handles s_bytes, rp_runtime_us = us,
      rp_protocol = resolved, rp_errors_connect = total_of handles s_errors_connect,
      rp_errors_read = total_of handles s_errors_read, rp_errors_write = total_of handles s_errors_write,
      rp_errors_timeout = total_of handles s_errors_timeout, rp_errors_status = total_of handles s_errors_status,
      rp_latency = latency', rp_requests = requests, rp_print_latency = cfg_latency c\<rparr> = Some text"
proof -
  have joined: "f (joined h) = (case h of None \<Rightarrow> 0 | Some s \<Rightarrow> f s)" if "f snapshot_default = 0" for f :: "snapshot \<Rightarrow> u64" and h
    using that by (simp add: joined_def split: option.splits)
  have sums: "s_complete (snapshot_sum (map joined handles)) = total_of handles s_complete"
    "s_bytes (snapshot_sum (map joined handles)) = total_of handles s_bytes"
    "s_errors_connect (snapshot_sum (map joined handles)) = total_of handles s_errors_connect"
    "s_errors_read (snapshot_sum (map joined handles)) = total_of handles s_errors_read"
    "s_errors_write (snapshot_sum (map joined handles)) = total_of handles s_errors_write"
    "s_errors_status (snapshot_sum (map joined handles)) = total_of handles s_errors_status"
    "s_errors_timeout (snapshot_sum (map joined handles)) = total_of handles s_errors_timeout"
    by (simp_all add: total_of_def snapshot_sum_list joined snapshot_default_def comp_def)
  obtain latency' where l: "correct_omission (total_of handles s_complete) (cfg_connections c) us latency = Some latency'"
    "stats_safe latency'" "total_of handles s_complete < cfg_connections c \<longrightarrow> latency' = latency"
    using correct_omission_Some [OF assms(1)] by blast
  let ?r = "\<lparr>rp_complete = total_of handles s_complete, rp_bytes = total_of handles s_bytes, rp_runtime_us = us,
      rp_protocol = resolved, rp_errors_connect = total_of handles s_errors_connect,
      rp_errors_read = total_of handles s_errors_read, rp_errors_write = total_of handles s_errors_write,
      rp_errors_timeout = total_of handles s_errors_timeout, rp_errors_status = total_of handles s_errors_status,
      rp_latency = latency', rp_requests = requests, rp_print_latency = cfg_latency c\<rparr>"
  obtain shown where shown: "print_report ?r = Some shown"
    using print_report_Some [of ?r] assms(2) l(2) by auto
  have "main_finish c resolved handles us latency requests = Some shown"
    using l(1) shown by (simp add: main_finish_def sums Let_def)
  with l shown show ?thesis by blast
qed

theorem report_is_printed_witness:
  "\<exists>text. main_finish example_config Res_Http1 [Some (Snapshot 5 6 0 0 0 0 0), None] 1000 hist_run hist_empty = Some text"
proof -
  have "stats_safe hist_empty" using stats_safe_alloc [OF run_example(1)] .
  moreover have "stats_safe hist_run" by (simp add: stats_safe_def hist_run_def)
  ultimately show ?thesis using report_is_printed by blast
qed

lemma main_finish_total:
  assumes "stats_safe latency" "stats_safe requests"
  shows "main_finish c resolved handles us latency requests \<noteq> None"
proof -
  obtain l where "correct_omission (s_complete (snapshot_sum (map joined handles))) (cfg_connections c) us latency = Some l"
    "stats_safe l" using correct_omission_Some [OF assms(1)] by blast
  then show ?thesis using assms(2) by (simp add: main_finish_def Let_def print_report_Some)
qed

context bench_task
begin

lemma run_safe:
  assumes "wf t" "pend t = 0" "main_setup P parsed = Some (Done su)"
    and "r = run_steps resume acts (start_run su (start_worker t) now)"
  shows "main_finish c p handles us (r_latency r) (r_requests r) \<noteq> None" "r_aborted r \<Longrightarrow> \<not> sound"
proof -
  have start: "run_ok (start_run su (start_worker t) now)" "\<not> r_aborted (start_run su (start_worker t) now)"
    using start_ok [OF assms(1,2)] setup_fresh [OF assms(3)] by (auto simp: start_run_def)
  have ok: "run_ok r" and aborted: "r_aborted r \<Longrightarrow> \<not> sound"
    using run_steps_ok [OF start(1), of acts] start(2) unfolding assms(4) by blast+
  show "main_finish c p handles us (r_latency r) (r_requests r) \<noteq> None"
    using ok main_finish_total unfolding run_ok_def by blast
  show "r_aborted r \<Longrightarrow> \<not> sound" by (rule aborted)
qed

end

text \<open>C8: a run that starts is reported. From a successful set-up, after any interleaving of the tasks of
  any protocol and with any behaviour of the network: no bucket index, no arithmetic and no query of
  the histograms panics, so \<open>main\<close> prints its report. A panic of a worker ends the whole program before that,
  and can only come from building requests: over HTTP/2 and HTTP/3 when there are more \<open>-H\<close>
  options than the header map has room for beside two more entries; over HTTP/1.1 when the accepted ones
  with \<open>Host\<close>, the user agent and the length of a body are too many, when the host makes no header value, or the path no URI.\<close>

theorem run_is_reported:
  assumes "main_setup P parsed = Some (Done su)"
    and "r1 = run_steps (h1_resume J) acts1 (start_run su run_worker now)"
    and "r2 = run_steps (h2_resume J) acts2 (start_run su run_h2_worker now)"
    and "r3 = run_steps (h3_resume J3) acts3 (start_run su run_h3_worker now)"
    and "header_map_laws (j_lib J)" "header_map_laws (j_lib J3)"
  shows "(r_aborted r1 \<longrightarrow> value_from_str (j_lib J) (host_header (j_cfg J)) = None \<or> \<not> valid_uri (j_lib J) (cfg_path (j_cfg J)) \<or>
      map_max (j_lib J) < length (user_headers (j_lib J) (cfg_headers (j_cfg J))) + 2 + (if cfg_body (j_cfg J) = [] then 0 else 1)) \<and>
    (r_aborted r2 \<longrightarrow> map_max (j_lib J) < length (cfg_headers (j_cfg J)) + 2) \<and>
    (r_aborted r3 \<longrightarrow> map_max (j_lib J3) < length (cfg_headers (j_cfg J3)) + 2) \<and>
    main_finish (su_cfg su) p handles us (r_latency r1) (r_requests r1) \<noteq> None \<and>
    main_finish (su_cfg su) p handles us (r_latency r2) (r_requests r2) \<noteq> None \<and>
    main_finish (su_cfg su) p handles us (r_latency r3) (r_requests r3) \<noteq> None"
proof -
  note r = assms(2-4) [unfolded run_worker_def [abs_def] run_h2_worker_def [abs_def] run_h3_worker_def [abs_def]]
  have "h1_wf J H1_Start" "h1_pend H1_Start = 0" "h2_wf J H2_Start" "h2_pend H2_Start = 0"
    "h3_wf J3 H3_Start" "h3_pend H3_Start = 0" by simp_all
  from h1.run_safe [OF this(1,2) assms(1) r(1)] h2.run_safe [OF this(3,4) assms(1) r(2)]
    h3.run_safe [OF this(5,6) assms(1) r(3)] show ?thesis
    unfolding h1_request_None [OF assms(5)] h2_request_None [OF assms(5)] h3_request_None [OF assms(6)] by blast
qed

theorem run_is_reported_witness:
  "\<exists>su r. main_setup example_platform (Some example_cli) = Some (Done su) \<and>
    r = run_steps (h2_resume plain_job) [Poll 0 0 C2_Run, Clock 5, Stop, Sample 0] (start_run su run_h2_worker 0) \<and>
    main_finish (su_cfg su) Res_Http2 [Some (worker_result True (r_workers r ! 0))] 5 (r_latency r) (r_requests r) \<noteq> None"
proof -
  have laws: "header_map_laws (j_lib plain_job)" using list_lib_laws by (simp add: plain_job_def)
  have laws3: "header_map_laws (j_lib \<lparr>j_lib = list_lib, j_cfg = plain_config, j_tls = False, j_sni = False, j_quic = True\<rparr>)"
    using list_lib_laws by simp
  obtain su where su: "main_setup example_platform (Some example_cli) = Some (Done su)"
    using setup_example by blast
  let ?r = "run_steps (h2_resume plain_job) [Poll 0 0 C2_Run, Clock 5, Stop, Sample 0] (start_run su run_h2_worker 0)"
  have "main_finish (su_cfg su) Res_Http2 [Some (worker_result True (r_workers ?r ! 0))] 5 (r_latency ?r) (r_requests ?r) \<noteq> None"
    by (rule run_is_reported [OF su refl refl refl laws laws3, THEN conjunct2, THEN conjunct2, THEN conjunct2, THEN conjunct2, THEN conjunct1])
  with su show ?thesis by blast
qed




end
