(* ===== verification/Measure.thy ===== *)
theory Measure
  imports H3
begin

text \<open>
  What the benchmark loop of the three protocols measures, as one contract. An answer is what the
  server did with one request: how long it took, its status and the bytes that count. The locale
  \<open>exchange_loop\<close> says that a task that has sent a request and is answered accounts for the answer
  and sends the next request, or ends when the stop flag is set; its lemmas say what a whole sequence
  of answers leaves in the counters and in the histogram.
\<close>

section \<open>Answers and what they leave\<close>

datatype answer = Answer (a_delay: nat) (a_status: u16) (a_bytes: u64)

definition in_time :: "config \<Rightarrow> answer \<Rightarrow> bool" where
  "in_time c a \<longleftrightarrow> a_delay a \<le> from_millis (cfg_timeout c)"

definition sample_of :: "answer \<Rightarrow> u64" where
  "sample_of a = as_micros_u64 (a_delay a)"

text \<open>The figures of a sequence of answers; a late answer is a timeout and nothing else.\<close>

definition bytes_of :: "config \<Rightarrow> answer list \<Rightarrow> u64" where
  "bytes_of c as = (\<Sum>a\<leftarrow>filter (in_time c) as. a_bytes a)"

definition bad_status_of :: "answer list \<Rightarrow> u64" where
  "bad_status_of as = of_nat (length (filter (\<lambda>a. 399 < a_status a) as))"

definition late_of :: "config \<Rightarrow> answer list \<Rightarrow> u64" where
  "late_of c as = of_nat (length (filter (\<lambda>a. \<not> in_time c a) as))"

definition samples_of :: "config \<Rightarrow> answer list \<Rightarrow> u64 multiset" where
  "samples_of c as = mset (map sample_of (filter (in_time c) as))"

lemmas figures = bytes_of_def bad_status_of_def late_of_def samples_of_def

lemma figures_append:
  "bytes_of c (as @ bs) = bytes_of c as + bytes_of c bs"
  "bad_status_of (as @ bs) = bad_status_of as + bad_status_of bs"
  "late_of c (as @ bs) = late_of c as + late_of c bs"
  "samples_of c (as @ bs) = samples_of c as + samples_of c bs"
  by (simp_all add: figures)

text \<open>All other counters keep their values.\<close>

definition measured :: "config \<Rightarrow> answer list \<Rightarrow> shared \<Rightarrow> shared \<Rightarrow> bool" where
  "measured c as s s' \<longleftrightarrow>
     sh_counters s' = (sh_counters s)\<lparr>k_bytes := k_bytes (sh_counters s) + bytes_of c as,
       k_errors_status := k_errors_status (sh_counters s) + bad_status_of as,
       k_errors_timeout := k_errors_timeout (sh_counters s) + late_of c as\<rparr> \<and>
     st_limit (sh_latency s') = st_limit (sh_latency s) \<and>
     (\<forall>M. represents (sh_latency s) M \<longrightarrow> represents (sh_latency s') (M + samples_of c as))"

lemma measured_none: "measured c [] s s"
  by (simp add: measured_def figures)

lemma measured_trans: "measured c as s s1 \<Longrightarrow> measured c bs s1 s2 \<Longrightarrow> measured c (as @ bs) s s2"
  by (auto simp: measured_def figures_append add.assoc)

lemma measured_cong:
  "sh_counters s1 = sh_counters s \<Longrightarrow> sh_latency s1 = sh_latency s \<Longrightarrow> measured c as s1 s' = measured c as s s'"
  "sh_counters s1 = sh_counters s' \<Longrightarrow> sh_latency s1 = sh_latency s' \<Longrightarrow> measured c as s s1 = measured c as s s'"
  by (simp_all add: measured_def)

lemma measured_simps [simp]:
  "measured c as (inc_rate s) s' = measured c as s s'" "measured c as s (inc_rate s') = measured c as s s'"
  "measured c as (s\<lparr>sh_now := n\<rparr>) s' = measured c as s s'" "measured c as (s\<lparr>sh_stop := b\<rparr>) s' = measured c as s s'"
  by (auto intro!: measured_cong simp: step_defs)

text \<open>The histogram has room for every time up to the timeout, as the one that \<open>main\<close> allocates.\<close>

definition fits :: "config \<Rightarrow> shared \<Rightarrow> bool" where
  "fits c s \<longleftrightarrow> (\<exists>M. represents (sh_latency s) M) \<and> unat (cfg_timeout c) * 1000 < unat (st_limit (sh_latency s))"

lemma fits_measured: "measured c as s s' \<Longrightarrow> fits c s \<Longrightarrow> fits c s'"
  by (auto simp: fits_def measured_def)

lemma fits_cong: "sh_latency s' = sh_latency s \<Longrightarrow> fits c s' = fits c s"
  by (simp add: fits_def)

lemma record_in_time:
  assumes "fits c s" "d \<le> from_millis (cfg_timeout c)" "sh_latency s2 = sh_latency s"
  obtains l where "record_latency (as_micros_u64 d) s2 = Some (s2\<lparr>sh_latency := l\<rparr>)"
    "st_limit l = st_limit (sh_latency s)"
    "\<And>M. represents (sh_latency s) M \<Longrightarrow> represents l (add_mset (as_micros_u64 d) M)"
proof -
  obtain M where M: "represents (sh_latency s) M" using assms(1) by (auto simp: fits_def)
  have below: "as_micros_u64 d < st_limit (sh_latency s)"
    using micros_within [OF assms(2)] assms(1) by (simp add: fits_def word_less_nat_alt)
  obtain l where l: "stats_record (as_micros_u64 d) (sh_latency s) = Some (True, l)"
    "st_limit l = st_limit (sh_latency s)"
    using record_represents [OF M, of "as_micros_u64 d"] below by auto
  have "represents l (add_mset (as_micros_u64 d) M')" if "represents (sh_latency s) M'" for M'
    using record_represents [OF that, of "as_micros_u64 d"] below l(1) by auto
  with l show ?thesis using assms(3) by (intro that [of l]) (simp_all add: record_latency_def)
qed

section \<open>Tasks on the clock\<close>

text \<open>Resumptions of a task, each after some time.\<close>

fun run_timed :: "('e \<Rightarrow> 't \<times> shared \<Rightarrow> ('t \<times> shared) option) \<Rightarrow> (nat \<times> 'e) list \<Rightarrow> 't \<times> shared \<Rightarrow> ('t \<times> shared) option" where
  "run_timed resume [] ts = Some ts"
| "run_timed resume ((d, e) # es) (t, s) =
     do { ts' \<leftarrow> resume e (t, s\<lparr>sh_now := sh_now s + d\<rparr>); run_timed resume es ts' }"

lemma run_timed_Nil [simp]: "run_timed resume [] = Some"
  by (rule ext) simp

lemma run_timed_append:
  "run_timed resume (xs @ ys) ts = do { ts' \<leftarrow> run_timed resume xs ts; run_timed resume ys ts' }"
  by (induction resume xs ts rule: run_timed.induct) (auto split: Option.bind_splits)

text \<open>A benchmark of one task: first steps, and last ones during which the stop flag is set.\<close>

definition session ::
    "('e \<Rightarrow> 't \<times> shared \<Rightarrow> ('t \<times> shared) option) \<Rightarrow> (nat \<times> 'e) list \<Rightarrow> (nat \<times> 'e) list \<Rightarrow> 't \<times> shared \<Rightarrow> ('t \<times> shared) option" where
  "session resume es final ts = do {
     (t, s) \<leftarrow> run_timed resume es ts;
     run_timed resume final (t, s\<lparr>sh_stop := True\<rparr>)
   }"

lemma rate_inc: "sh_rate (inc_rate s) = sh_rate s + 1"
  by (simp add: step_defs)

section \<open>The contract\<close>

locale exchange_loop =
  fixes resume :: "'e \<Rightarrow> 't \<times> shared \<Rightarrow> ('t \<times> shared) option"
    and sending :: "u64 \<Rightarrow> nat \<Rightarrow> 't"
    and ended :: 't
    and script :: "'x \<Rightarrow> (nat \<times> 'e) list"
    and answer :: "'x \<Rightarrow> answer"
    and valid :: "'x \<Rightarrow> bool"
    and c :: config
  assumes exchange: "valid x \<Longrightarrow> fits c s \<Longrightarrow>
    \<exists>s'. run_timed resume (script x) (sending l (sh_now s), s)
        = Some (if sh_stop s then (ended, add_complete (l + 1) s') else (sending (l + 1) (sh_now s'), inc_rate s'))
      \<and> measured c [answer x] s s' \<and> sh_stop s' = sh_stop s \<and> sh_rate s' = sh_rate s
      \<and> sh_now s' = sh_now s + a_delay (answer x)"
begin

lemma exchanges:
  "\<forall>x \<in> set xs. valid x \<Longrightarrow> fits c s \<Longrightarrow> \<not> sh_stop s \<Longrightarrow>
    \<exists>s'. run_timed resume (concat (map script xs)) (sending l (sh_now s), s)
        = Some (sending (l + of_nat (length xs)) (sh_now s'), s')
      \<and> measured c (map answer xs) s s' \<and> \<not> sh_stop s' \<and> sh_rate s' = sh_rate s + of_nat (length xs)
      \<and> sh_now s' = sh_now s + (\<Sum>x\<leftarrow>xs. a_delay (answer x))"
proof (induction xs arbitrary: l s)
  case Nil
  then show ?case by (auto simp: measured_none)
next
  case (Cons x xs)
  obtain s1 where s1: "run_timed resume (script x) (sending l (sh_now s), s)
      = Some (sending (l + 1) (sh_now s1), inc_rate s1)" "measured c [answer x] s s1" "\<not> sh_stop s1"
      "sh_rate s1 = sh_rate s" "sh_now s1 = sh_now s + a_delay (answer x)"
    using exchange [of x s l] Cons.prems by auto
  have "fits c (inc_rate s1)" using fits_measured [OF s1(2) Cons.prems(2)] fits_cong [of "inc_rate s1" s1] by simp
  then obtain s2 where s2: "run_timed resume (concat (map script xs)) (sending (l + 1) (sh_now s1), inc_rate s1)
      = Some (sending (l + 1 + of_nat (length xs)) (sh_now s2), s2)" "measured c (map answer xs) s1 s2" "\<not> sh_stop s2"
      "sh_rate s2 = sh_rate s1 + 1 + of_nat (length xs)" "sh_now s2 = sh_now s1 + (\<Sum>x\<leftarrow>xs. a_delay (answer x))"
    using Cons.IH [of "inc_rate s1" "l + 1"] Cons.prems(1) s1(3) by (auto simp: rate_inc)
  have "measured c (map answer (x # xs)) s s2" using measured_trans [OF s1(2) s2(2)] by simp
  with s1 s2 show ?case by (auto simp: run_timed_append algebra_simps)
qed

text \<open>A whole benchmark of one task, from the event that lets it send its first request.\<close>

lemma session_measured:
  assumes "\<forall>x \<in> set xs. valid x" "valid y" "fits c s" "\<not> sh_stop s"
    and "\<And>s. \<not> sh_stop s \<Longrightarrow> resume e (t, s) = Some (sending 0 (sh_now s), inc_rate s)"
  shows "\<exists>s'. session resume ((d, e) # concat (map script xs)) (script y) (t, s)
      = Some (ended, add_complete (of_nat (length (xs @ [y]))) s')
    \<and> measured c (map answer (xs @ [y])) s s'"
proof -
  let ?s0 = "inc_rate (s\<lparr>sh_now := sh_now s + d\<rparr>)"
  have fits0: "fits c ?s0" using assms(3) fits_cong [of ?s0 s] by simp
  then obtain s1 where s1: "run_timed resume (concat (map script xs)) (sending 0 (sh_now s + d), ?s0)
      = Some (sending (of_nat (length xs)) (sh_now s1), s1)" "measured c (map answer xs) ?s0 s1"
    using exchanges [OF assms(1), of ?s0 0] assms(4) by auto
  let ?s = "s1\<lparr>sh_stop := True\<rparr>"
  have "fits c ?s" using fits_measured [OF s1(2) fits0] fits_cong [of ?s s1] by simp
  from exchange [OF assms(2) this, of "of_nat (length xs)"]
  obtain s2 where s2: "run_timed resume (script y) (sending (of_nat (length xs)) (sh_now s1), ?s)
      = Some (ended, add_complete (of_nat (length xs) + 1) s2)" "measured c [answer y] ?s s2" by auto
  have "measured c (map answer xs) s s1" "measured c [answer y] s1 s2"
    using s1(2) s2(2) by simp_all
  from measured_trans [OF this] have "measured c (map answer (xs @ [y])) s s2" by simp
  with s1(1) s2(1) assms(4,5) show ?thesis by (auto simp: session_def add.commute)
qed

end

section \<open>HTTP/3\<close>

text \<open>An answer over HTTP/3: the time it took, the status, and the chunks of its body.\<close>

type_synonym h3_exchange = "nat \<times> u16 \<times> u64 list"

fun h3_script :: "h3_exchange \<Rightarrow> (nat \<times> h3_stream_event) list" where
  "h3_script (d, st, cs) = [(d, S3_Exchanged True True (Some st) (map Some cs))]"

fun h3_answer :: "h3_exchange \<Rightarrow> answer" where
  "h3_answer (d, st, cs) = Answer d st (sum_list cs)"

lemma h3_read_chunks: "h3_read (map Some cs) n = Inr (n + sum_list cs)"
  by (induction cs arbitrary: n) (simp_all add: add.assoc)

lemma add_bytes_measured:
  "sh_counters (add_bytes n s) = (sh_counters s)\<lparr>k_bytes := k_bytes (sh_counters s) + n\<rparr>"
  by (simp add: step_defs)

lemma h3_respond_measured:
  assumes "fits (j_cfg J) s" "start + d = sh_now s"
  shows "\<exists>s'. h3_respond J req l start st n s
      = Some (if sh_stop s then (S3_Done, add_complete (l + 1) s')
              else (S3_Exchanging (l + 1) (sh_now s') req, inc_rate s'))
    \<and> measured (j_cfg J) [Answer d st n] s s' \<and> sh_stop s' = sh_stop s \<and> sh_rate s' = sh_rate s \<and> sh_now s' = sh_now s"
proof -
  let ?c = "j_cfg J" and ?s2 = "if 399 < st then inc_status s else s"
  have d: "sh_now s - start = d" using assms(2) by simp
  show ?thesis
  proof (cases "d \<le> from_millis (cfg_timeout ?c)")
    case True
    have "sh_latency ?s2 = sh_latency s" by simp
    from record_in_time [OF assms(1) True this]
    obtain h where h: "record_latency (as_micros_u64 d) ?s2 = Some (?s2\<lparr>sh_latency := h\<rparr>)"
      "st_limit h = st_limit (sh_latency s)"
      "\<And>M. represents (sh_latency s) M \<Longrightarrow> represents h (add_mset (as_micros_u64 d) M)" by blast
    let ?s' = "add_bytes n (?s2\<lparr>sh_latency := h\<rparr>)"
    have "measured ?c [Answer d st n] s ?s'"
      using True h(2,3) by (auto simp: measured_def figures in_time_def sample_of_def step_defs)
    then show ?thesis
      using True d h(1) by (intro exI [of _ ?s']) (simp add: h3_respond_def h3_next_def)
  next
    case False
    have "measured ?c [Answer d st n] s (inc_timeout ?s2)"
      using False by (auto simp: measured_def figures in_time_def step_defs)
    then show ?thesis
      using False d by (intro exI [of _ "inc_timeout ?s2"]) (simp add: h3_respond_def h3_next_def)
  qed
qed

interpretation h3_loop: exchange_loop "h3_stream_resume J"
    "\<lambda>l t. S3_Exchanging l t req" S3_Done h3_script h3_answer "\<lambda>x. True" "j_cfg J" for J req
proof
  fix x :: h3_exchange and s :: shared and l :: u64
  assume fits: "fits (j_cfg J) s"
  obtain d st cs where x: "x = (d, st, cs)" by (cases x) auto
  let ?s = "s\<lparr>sh_now := sh_now s + d\<rparr>"
  have "fits (j_cfg J) ?s" using fits fits_cong [of ?s s] by simp
  from h3_respond_measured [OF this, of "sh_now s" d req l st "sum_list cs"]
  obtain s' where s': "h3_respond J req l (sh_now s) st (sum_list cs) ?s
      = Some (if sh_stop s then (S3_Done, add_complete (l + 1) s')
              else (S3_Exchanging (l + 1) (sh_now s') req, inc_rate s'))"
    "measured (j_cfg J) [Answer d st (sum_list cs)] s s'" "sh_stop s' = sh_stop s" "sh_rate s' = sh_rate s"
    "sh_now s' = sh_now s + d"
    by auto
  show "\<exists>s'. run_timed (h3_stream_resume J) (h3_script x) (S3_Exchanging l (sh_now s) req, s)
      = Some (if sh_stop s then (S3_Done, add_complete (l + 1) s')
              else (S3_Exchanging (l + 1) (sh_now s') req, inc_rate s'))
      \<and> measured (j_cfg J) [h3_answer x] s s' \<and> sh_stop s' = sh_stop s \<and> sh_rate s' = sh_rate s
      \<and> sh_now s' = sh_now s + a_delay (h3_answer x)"
    unfolding x by (intro exI [of _ s']) (simp add: s' h3_request_response_def h3_read_chunks)
qed

section \<open>HTTP/1.1 and HTTP/2\<close>

text \<open>
  An answer of which the head comes first and the body in parts: each part is what one poll finds,
  and the last poll finds the end.
\<close>

datatype 'm exchange = Exchange (x_wait: nat) (x_status: u16) (x_headers: 'm)
  (x_parts: "(nat \<times> frame_poll list) list") (x_last: "nat \<times> frame_poll list")

definition x_frames :: "'m exchange \<Rightarrow> frame_poll list" where
  "x_frames x = concat (map snd (x_parts x)) @ snd (x_last x)"

definition x_answer :: "('n, 'v, 'm) http_lib \<Rightarrow> 'm exchange \<Rightarrow> answer" where
  "x_answer H x = Answer (x_wait x + (\<Sum>p\<leftarrow>x_parts x. fst p) + fst (x_last x)) (x_status x)
     (estimate_response_bytes H (x_status x) (x_headers x) + (\<Sum>f\<leftarrow>x_frames x. frame_bytes f))"

definition x_valid :: "('n, 'v, 'm) http_lib \<Rightarrow> config \<Rightarrow> 'm exchange \<Rightarrow> bool" where
  "x_valid H c x \<longleftrightarrow> list_all is_frame (x_frames x) \<and> in_time c (x_answer H x)"

definition x_script :: "((u16 \<times> 'm) option \<Rightarrow> 'e) \<Rightarrow> (frame_poll list \<Rightarrow> 'e) \<Rightarrow> 'm exchange \<Rightarrow> (nat \<times> 'e) list" where
  "x_script head body x = (x_wait x, head (Some (x_status x, x_headers x)))
     # map (\<lambda>(d, fs). (d, body fs)) (x_parts x) @ [(fst (x_last x), body (snd (x_last x) @ [End]))]"

lemma drain_parts:
  assumes "\<And>fs n k s. drain_poll fs n = Pending k \<Longrightarrow> resume (body fs) (draining n, s) = Some (draining k, s)"
    and "list_all is_frame (concat (map snd ps))"
  shows "run_timed resume (map (\<lambda>(d, fs). (d, body fs)) ps @ es) (draining n, s) =
    run_timed resume es (draining (n + (\<Sum>f\<leftarrow>concat (map snd ps). frame_bytes f)), s\<lparr>sh_now := sh_now s + (\<Sum>p\<leftarrow>ps. fst p)\<rparr>)"
  using assms(2)
proof (induction ps arbitrary: n s)
  case (Cons p ps)
  obtain d fs where p: "p = (d, fs)" by (cases p)
  have "drain_poll fs n = Pending (n + (\<Sum>f\<leftarrow>fs. frame_bytes f))"
    using drain_poll_frames [of fs "[]" n] Cons.prems p by simp
  from assms(1) [OF this] show ?case using Cons p by (simp add: add.assoc)
qed simp

lemma h1_respond_measured:
  assumes "fits (j_cfg J) s" "start + d = sh_now s" "d \<le> from_millis (cfg_timeout (j_cfg J))"
    and "b = estimate_response_bytes (j_lib J) st hs + n"
  shows "\<exists>s'. (\<forall>req. h1_request (j_lib J) (j_cfg J) = Some req \<longrightarrow> h1_respond J l start st hs n s
      = Some (if sh_stop s then (H1_Done, add_complete (l + 1) s') else (H1_Sending (l + 1) (sh_now s') req, inc_rate s')))
    \<and> (\<forall>req. h2_request (j_lib J) (j_cfg J) = Some req \<longrightarrow> h2_respond J l start st hs n s
      = Some (if sh_stop s then (S2_Done, add_complete (l + 1) s') else (S2_Sending (l + 1) (sh_now s') req, inc_rate s')))
    \<and> measured (j_cfg J) [Answer d st b] s s' \<and> sh_stop s' = sh_stop s \<and> sh_rate s' = sh_rate s \<and> sh_now s' = sh_now s"
proof -
  define s2 where "s2 = (if 399 < st then inc_status (add_bytes b s) else add_bytes b s)"
  have same: "sh_latency s2 = sh_latency s" "sh_stop s2 = sh_stop s" "sh_rate s2 = sh_rate s" "sh_now s2 = sh_now s"
    by (simp_all add: s2_def)
  from record_in_time [OF assms(1,3) same(1)]
  obtain h where h: "record_latency (as_micros_u64 d) s2 = Some (s2\<lparr>sh_latency := h\<rparr>)"
    "st_limit h = st_limit (sh_latency s)"
    "\<And>M. represents (sh_latency s) M \<Longrightarrow> represents h (add_mset (as_micros_u64 d) M)" by blast
  let ?s' = "s2\<lparr>sh_latency := h\<rparr>"
  have "measured (j_cfg J) [Answer d st b] s ?s'"
    using assms(3) h(2,3) by (auto simp: measured_def figures in_time_def sample_of_def s2_def step_defs)
  moreover have d: "sh_now s - start = d" using assms(2) by simp
  have "h1_respond J l start st hs n s = h1_next J (l + 1) ?s'"
    "h2_respond J l start st hs n s = h2_next J (l + 1) ?s'"
    using assms(3) d h(1) unfolding h1_respond_def h2_respond_def assms(4) [symmetric] shared_simps Let_def s2_def [symmetric]
    by simp_all
  ultimately show ?thesis
    using same by (intro exI [of _ ?s']) (simp add: h1_next_def h2_next_def)
qed

text \<open>Both protocols drain a body alike; what differs is the accounting that follows.\<close>

lemma run_exchange:
  assumes "\<And>d st hs s. resume (head (Some (st, hs))) (sending, s) = Some (draining st hs 0, s)"
    and "\<And>fs st hs n s. resume (body fs) (draining st hs n, s) = (case drain_poll fs n of
        Pending k \<Rightarrow> Some (draining st hs k, s) | Ready_Err \<Rightarrow> failed s | Ready_Ok k \<Rightarrow> respond st hs k s)"
    and "list_all is_frame (x_frames x)"
  shows "run_timed resume (x_script head body x) (sending, s) =
    respond (x_status x) (x_headers x) (\<Sum>f\<leftarrow>x_frames x. frame_bytes f) (s\<lparr>sh_now := sh_now s + a_delay (x_answer H x)\<rparr>)"
proof -
  let ?d = "draining (x_status x) (x_headers x)"
  have frames: "list_all is_frame (concat (map snd (x_parts x)))" "list_all is_frame (snd (x_last x))"
    using assms(3) by (simp_all add: x_frames_def)
  have "resume (body fs) (?d n, s) = Some (?d k, s)" if "drain_poll fs n = Pending k" for fs n k s
    using that assms(2) by simp
  note parts = drain_parts [of resume body ?d, OF this frames(1)]
  show ?thesis
    using drain_poll_frames [OF frames(2), of "[End]"]
    by (simp add: x_script_def assms(1,2) parts x_frames_def x_answer_def add.assoc)
qed

text \<open>A valid answer is accounted for alike, too.\<close>

lemma respond_exchange:
  assumes "x_valid (j_lib J) (j_cfg J) x" "fits (j_cfg J) s"
  defines "n \<equiv> (\<Sum>f\<leftarrow>x_frames x. frame_bytes f)"
    and "now \<equiv> s\<lparr>sh_now := sh_now s + a_delay (x_answer (j_lib J) x)\<rparr>"
  obtains s' where "h1_request (j_lib J) (j_cfg J) = Some req1 \<longrightarrow>
      h1_respond J l (sh_now s) (x_status x) (x_headers x) n now
      = Some (if sh_stop s then (H1_Done, add_complete (l + 1) s') else (H1_Sending (l + 1) (sh_now s') req1, inc_rate s'))"
    "h2_request (j_lib J) (j_cfg J) = Some req2 \<longrightarrow>
      h2_respond J l (sh_now s) (x_status x) (x_headers x) n now
      = Some (if sh_stop s then (S2_Done, add_complete (l + 1) s') else (S2_Sending (l + 1) (sh_now s') req2, inc_rate s'))"
    "measured (j_cfg J) [x_answer (j_lib J) x] s s'" "sh_stop s' = sh_stop s" "sh_rate s' = sh_rate s"
    "sh_now s' = sh_now s + a_delay (x_answer (j_lib J) x)"
proof -
  let ?a = "x_answer (j_lib J) x"
  have a: "?a = Answer (a_delay ?a) (x_status x) (estimate_response_bytes (j_lib J) (x_status x) (x_headers x) + n)"
    by (simp add: x_answer_def n_def)
  have fits: "fits (j_cfg J) now" using assms(2) fits_cong [of now s] by (simp add: now_def)
  have "a_delay ?a \<le> from_millis (cfg_timeout (j_cfg J))" using assms(1) by (simp add: x_valid_def in_time_def)
  from h1_respond_measured [OF fits _ this refl, where start = "sh_now s" and l = l and st = "x_status x" and hs = "x_headers x" and n = n] show ?thesis
    using that a unfolding now_def by auto
qed

interpretation h1_loop: exchange_loop "h1_resume J" "\<lambda>l t. H1_Sending l t (the (h1_request (j_lib J) (j_cfg J)))" H1_Done
    "x_script Ev_Response Ev_Body" "x_answer (j_lib J)"
    "\<lambda>x. x_valid (j_lib J) (j_cfg J) x \<and> h1_request (j_lib J) (j_cfg J) \<noteq> None" "j_cfg J" for J
proof
  fix x :: "'c exchange" and s :: shared and l :: u64
  let ?H = "j_lib J" and ?req = "the (h1_request (j_lib J) (j_cfg J))"
  assume x: "x_valid ?H (j_cfg J) x \<and> h1_request ?H (j_cfg J) \<noteq> None" and fits: "fits (j_cfg J) s"
  then have "h1_request ?H (j_cfg J) = Some ?req" by simp
  with respond_exchange [OF x [THEN conjunct1] fits, of ?req l undefined] obtain s' where
    s': "h1_respond J l (sh_now s) (x_status x) (x_headers x) (\<Sum>f\<leftarrow>x_frames x. frame_bytes f)
        (s\<lparr>sh_now := sh_now s + a_delay (x_answer ?H x)\<rparr>)
      = Some (if sh_stop s then (H1_Done, add_complete (l + 1) s') else (H1_Sending (l + 1) (sh_now s') ?req, inc_rate s'))"
    "measured (j_cfg J) [x_answer ?H x] s s'" "sh_stop s' = sh_stop s" "sh_rate s' = sh_rate s"
    "sh_now s' = sh_now s + a_delay (x_answer ?H x)" by blast
  have "run_timed (h1_resume J) (x_script Ev_Response Ev_Body x) (H1_Sending l (sh_now s) ?req, s) =
    h1_respond J l (sh_now s) (x_status x) (x_headers x) (\<Sum>f\<leftarrow>x_frames x. frame_bytes f)
      (s\<lparr>sh_now := sh_now s + a_delay (x_answer ?H x)\<rparr>)"
    using x by (intro run_exchange [where draining = "\<lambda>st hs n. H1_Draining l (sh_now s) st hs n"])
      (auto simp: x_valid_def)
  with s' show "\<exists>s'. run_timed (h1_resume J) (x_script Ev_Response Ev_Body x) (H1_Sending l (sh_now s) ?req, s)
      = Some (if sh_stop s then (H1_Done, add_complete (l + 1) s') else (H1_Sending (l + 1) (sh_now s') ?req, inc_rate s'))
      \<and> measured (j_cfg J) [x_answer ?H x] s s' \<and> sh_stop s' = sh_stop s \<and> sh_rate s' = sh_rate s
      \<and> sh_now s' = sh_now s + a_delay (x_answer ?H x)" by metis
qed

interpretation h2_loop: exchange_loop "h2_stream_resume J" "\<lambda>l t. S2_Sending l t (the (h2_request (j_lib J) (j_cfg J)))"
    S2_Done "x_script S2_Response S2_Body" "x_answer (j_lib J)"
    "\<lambda>x. x_valid (j_lib J) (j_cfg J) x \<and> h2_request (j_lib J) (j_cfg J) \<noteq> None" "j_cfg J" for J
proof
  fix x :: "'c exchange" and s :: shared and l :: u64
  let ?H = "j_lib J" and ?req = "the (h2_request (j_lib J) (j_cfg J))"
  assume x: "x_valid ?H (j_cfg J) x \<and> h2_request ?H (j_cfg J) \<noteq> None" and fits: "fits (j_cfg J) s"
  then have "h2_request ?H (j_cfg J) = Some ?req" by simp
  with respond_exchange [OF x [THEN conjunct1] fits, of undefined l ?req] obtain s' where
    s': "h2_respond J l (sh_now s) (x_status x) (x_headers x) (\<Sum>f\<leftarrow>x_frames x. frame_bytes f)
        (s\<lparr>sh_now := sh_now s + a_delay (x_answer ?H x)\<rparr>)
      = Some (if sh_stop s then (S2_Done, add_complete (l + 1) s') else (S2_Sending (l + 1) (sh_now s') ?req, inc_rate s'))"
    "measured (j_cfg J) [x_answer ?H x] s s'" "sh_stop s' = sh_stop s" "sh_rate s' = sh_rate s"
    "sh_now s' = sh_now s + a_delay (x_answer ?H x)" by blast
  have "run_timed (h2_stream_resume J) (x_script S2_Response S2_Body x) (S2_Sending l (sh_now s) ?req, s) =
    h2_respond J l (sh_now s) (x_status x) (x_headers x) (\<Sum>f\<leftarrow>x_frames x. frame_bytes f)
      (s\<lparr>sh_now := sh_now s + a_delay (x_answer ?H x)\<rparr>)"
    using x by (intro run_exchange [where draining = "\<lambda>st hs n. S2_Draining l (sh_now s) st hs n"])
      (auto simp: x_valid_def)
  with s' show "\<exists>s'. run_timed (h2_stream_resume J) (x_script S2_Response S2_Body x) (S2_Sending l (sh_now s) ?req, s)
      = Some (if sh_stop s then (S2_Done, add_complete (l + 1) s') else (S2_Sending (l + 1) (sh_now s') ?req, inc_rate s'))
      \<and> measured (j_cfg J) [x_answer ?H x] s s' \<and> sh_stop s' = sh_stop s \<and> sh_rate s' = sh_rate s
      \<and> sh_now s' = sh_now s + a_delay (x_answer ?H x)" by metis
qed

end
