(* ===== verification/Measure_Props.thy ===== *)
theory Measure_Props
  imports Measure Run_Props
begin

text \<open>What a benchmark measures, over a whole sequence of answers.\<close>

text \<open>The counters and the histogram after the answers \<open>as\<close>, where they were \<open>s\<close> and \<open>M\<close> before.\<close>

definition tallied :: "config \<Rightarrow> answer list \<Rightarrow> u64 multiset \<Rightarrow> shared \<Rightarrow> shared \<Rightarrow> bool" where
  "tallied c as M s s' \<longleftrightarrow>
     sh_counters s' = (sh_counters s)\<lparr>k_complete := k_complete (sh_counters s) + of_nat (length as),
       k_bytes := k_bytes (sh_counters s) + (\<Sum>a\<leftarrow>filter (in_time c) as. a_bytes a),
       k_errors_status := k_errors_status (sh_counters s) + of_nat (length (filter (\<lambda>a. 399 < a_status a) as)),
       k_errors_timeout := k_errors_timeout (sh_counters s) + of_nat (length (filter (\<lambda>a. \<not> in_time c a) as))\<rparr> \<and>
     represents (sh_latency s') (M + mset (map (\<lambda>a. as_micros_u64 (a_delay a)) (filter (in_time c) as)))"

lemma tallied_measured:
  "measured c as s s' \<Longrightarrow> represents (sh_latency s) M \<Longrightarrow> tallied c as M s (add_complete (of_nat (length as)) s')"
  by (simp add: tallied_def measured_def figures sample_of_def [abs_def] step_defs)

text \<open>The benchmark of one task in each protocol, from the interpretations of the loop.\<close>

lemma h1_tallied:
  assumes "represents (sh_latency s) M" "unat (cfg_timeout c) * 1000 < unat (st_limit (sh_latency s))"
    and "\<not> sh_stop s" "j_cfg J = c" "h1_request (j_lib J) c \<noteq> None" "\<forall>x \<in> set (xs @ [y]). x_valid (j_lib J) c x"
  shows "\<exists>s'. session (h1_resume J) ((d, Ev_Handshake True) # concat (map (x_script Ev_Response Ev_Body) xs))
          (x_script Ev_Response Ev_Body y) (H1_Handshaking, s) = Some (H1_Done, s')
        \<and> tallied c (map (x_answer (j_lib J)) (xs @ [y])) M s s'"
proof -
  have fits: "fits c s" using assms(1,2) by (auto simp: fits_def)
  have first: "h1_resume J (Ev_Handshake True) (H1_Handshaking, s)
      = Some (H1_Sending 0 (sh_now s) (the (h1_request (j_lib J) (j_cfg J))), inc_rate s)" if "\<not> sh_stop s" for s
    using that assms(4,5) by (auto simp: h1_next_def)
  show ?thesis
    using h1_loop.session_measured [where J = J and xs = xs and y = y and s = s and e = "Ev_Handshake True"
        and t = H1_Handshaking and d = d] first fits assms tallied_measured [OF _ assms(1), of c] by fastforce
qed

lemma h2_tallied:
  assumes "represents (sh_latency s) M" "unat (cfg_timeout c) * 1000 < unat (st_limit (sh_latency s))"
    and "\<not> sh_stop s" "j_cfg J = c" "h2_request (j_lib J) c \<noteq> None" "\<forall>x \<in> set (xs @ [y]). x_valid (j_lib J) c x"
  shows "\<exists>s'. session (h2_stream_resume J) ((d, S2_Run) # concat (map (x_script S2_Response S2_Body) xs))
          (x_script S2_Response S2_Body y) (S2_Ready, s) = Some (S2_Done, s')
        \<and> tallied c (map (x_answer (j_lib J)) (xs @ [y])) M s s'"
proof -
  have fits: "fits c s" using assms(1,2) by (auto simp: fits_def)
  have first: "h2_stream_resume J S2_Run (S2_Ready, s)
      = Some (S2_Sending 0 (sh_now s) (the (h2_request (j_lib J) (j_cfg J))), inc_rate s)" if "\<not> sh_stop s" for s
    using that assms(4,5) by (auto simp: h2_next_def)
  show ?thesis
    using h2_loop.session_measured [where J = J and xs = xs and y = y and s = s and e = S2_Run and t = S2_Ready
        and d = d] first fits assms tallied_measured [OF _ assms(1), of c] by fastforce
qed

lemma h3_tallied:
  assumes "represents (sh_latency s) M" "unat (cfg_timeout c) * 1000 < unat (st_limit (sh_latency s))"
    and "\<not> sh_stop s" "j_cfg J = c"
  shows "\<exists>s'. session (h3_stream_resume J) ((d, S3_Run) # concat (map h3_script xs)) (h3_script y) (S3_Ready req, s)
        = Some (S3_Done, s') \<and> tallied c (map h3_answer (xs @ [y])) M s s'"
proof -
  have fits: "fits c s" using assms(1,2) by (auto simp: fits_def)
  have first: "h3_stream_resume J S3_Run (S3_Ready req, s) = Some (S3_Exchanging 0 (sh_now s) req, inc_rate s)" if "\<not> sh_stop s" for s
    using that by (simp add: h3_next_def)
  show ?thesis
    using h3_loop.session_measured [where J = J and xs = xs and y = y and s = s and e = S3_Run
        and t = "S3_Ready req" and req = req and d = d] first fits assms tallied_measured [OF _ assms(1), of c] by fastforce
qed

text \<open>C4: what a benchmark measures. Over HTTP/1.1 and HTTP/2, with a request that can be built, let a task get any number of answers within
  the timeout, each with its head and then its body in any number of polls, and let the stop flag be
  set while it awaits the last one; over HTTP/3 answers may also be late. Then the task ends without
  a panic, and its figures are exact. \<open>complete\<close> has grown by the number of all answers, status errors by
  those above 399, late or not, and timeouts by the late ones. The transferred bytes have grown by
  the bytes of the answers within the timeout only, and the histogram has gained exactly their times,
  in microseconds: a late answer over HTTP/3 adds neither bytes nor a sample. No other counter has changed.\<close>

theorem benchmark_measures:
  assumes "represents (sh_latency s) M" "unat (cfg_timeout c) * 1000 < unat (st_limit (sh_latency s))"
    and "\<not> sh_stop s" "j_cfg J = c" "j_cfg J3 = c"
  shows "(h1_request (j_lib J) c \<noteq> None \<and> (\<forall>x \<in> set (xs @ [y]). x_valid (j_lib J) c x) \<longrightarrow>
      (\<exists>s'. session (h1_resume J) ((d, Ev_Handshake True) # concat (map (x_script Ev_Response Ev_Body) xs))
          (x_script Ev_Response Ev_Body y) (H1_Handshaking, s) = Some (H1_Done, s')
        \<and> tallied c (map (x_answer (j_lib J)) (xs @ [y])) M s s')) \<and>
    (h2_request (j_lib J) c \<noteq> None \<and> (\<forall>x \<in> set (xs @ [y]). x_valid (j_lib J) c x) \<longrightarrow>
      (\<exists>s'. session (h2_stream_resume J) ((d, S2_Run) # concat (map (x_script S2_Response S2_Body) xs))
          (x_script S2_Response S2_Body y) (S2_Ready, s) = Some (S2_Done, s')
        \<and> tallied c (map (x_answer (j_lib J)) (xs @ [y])) M s s')) \<and>
    (\<exists>s'. session (h3_stream_resume J3) ((d, S3_Run) # concat (map h3_script zs)) (h3_script z) (S3_Ready req, s)
        = Some (S3_Done, s') \<and> tallied c (map h3_answer (zs @ [z])) M s s')"
  using h1_tallied [OF assms(1-4)] h2_tallied [OF assms(1-4)] h3_tallied [OF assms(1-3,5)] by blast

definition quic_job :: "(string, string, (string \<times> string) list) h3_job" where
  "quic_job = \<lparr>j_lib = list_lib, j_cfg = plain_config, j_tls = False, j_sni = False, j_quic = True\<rparr>"

definition plain_template :: "(string \<times> string) list request" where
  "plain_template = the (h3_request list_lib plain_config)"

text \<open>The state in which a run with a timeout of two seconds starts.\<close>

lemma start_example:
  obtains h where "stats_alloc 2000000 = Some h" "represents (sh_latency ((fresh_shared False)\<lparr>sh_latency := h\<rparr>)) {#}"
    "unat (cfg_timeout plain_config) * 1000 < unat (st_limit (sh_latency ((fresh_shared False)\<lparr>sh_latency := h\<rparr>)))"
    "\<not> sh_stop ((fresh_shared False)\<lparr>sh_latency := h\<rparr>)"
proof -
  obtain h where h: "stats_alloc 2000000 = Some h" by (simp add: stats_alloc_Some_iff)
  from represents_alloc [OF h] show ?thesis
    by (intro that [of h] h) (simp_all add: plain_config_def example_config_def fresh_shared_def)
qed

theorem benchmark_measures_witness:
  "\<exists>h s'. stats_alloc 2000000 = Some h \<and>
    session (h3_stream_resume quic_job) [(0, S3_Run), (3000000000, S3_Exchanged True True (Some 503) [Some 7])]
      [(5000, S3_Exchanged True True (Some 200) [Some 1, Some 2])] (S3_Ready plain_template, (fresh_shared False)\<lparr>sh_latency := h\<rparr>)
      = Some (S3_Done, s') \<and>
    sh_counters s' = counters_default\<lparr>k_complete := 2, k_bytes := 3, k_errors_status := 1, k_errors_timeout := 1\<rparr> \<and>
    represents (sh_latency s') {#5#}"
proof -
  obtain h where h: "stats_alloc 2000000 = Some h" and start: "represents (sh_latency ((fresh_shared False)\<lparr>sh_latency := h\<rparr>)) {#}"
    "unat (cfg_timeout plain_config) * 1000 < unat (st_limit (sh_latency ((fresh_shared False)\<lparr>sh_latency := h\<rparr>)))"
    "\<not> sh_stop ((fresh_shared False)\<lparr>sh_latency := h\<rparr>)" by (rule start_example)
  have cfg: "j_cfg plain_job = plain_config" "j_cfg quic_job = plain_config" by (simp_all add: plain_job_def quic_job_def)
  have ms: "from_millis (cfg_timeout plain_config) = 2000000000"
    by (simp add: from_millis_def plain_config_def example_config_def)
  have us: "as_micros_u64 5000 = 5" by (simp add: as_micros_u64_def)
  from benchmark_measures [OF start cfg, THEN conjunct2, THEN conjunct2, of 0 "[(3000000000, 503, [7])]" "(5000, 200, [1, 2])"]
  obtain s' where "session (h3_stream_resume quic_job) [(0, S3_Run), (3000000000, S3_Exchanged True True (Some 503) [Some 7])]
      [(5000, S3_Exchanged True True (Some 200) [Some 1, Some 2])] (S3_Ready plain_template, (fresh_shared False)\<lparr>sh_latency := h\<rparr>)
      = Some (S3_Done, s')"
    "tallied plain_config [Answer 3000000000 503 7, Answer 5000 200 3] {#} ((fresh_shared False)\<lparr>sh_latency := h\<rparr>) s'"
    by auto
  then show ?thesis
    using h us ms by (auto simp: tallied_def in_time_def fresh_shared_def counters_default_def)
qed

section \<open>A task in a run\<close>

text \<open>Task \<open>i\<close> of worker \<open>k\<close> goes through some steps on the clock, and nobody else does anything.\<close>

fun ticks :: "nat \<Rightarrow> nat \<Rightarrow> (nat \<times> 'e) list \<Rightarrow> 'e action list" where
  "ticks k i [] = []"
| "ticks k i ((d, e) # es) = Clock d # Poll k i e # ticks k i es"

definition task_at :: "'t run \<Rightarrow> nat \<Rightarrow> nat \<Rightarrow> 't \<Rightarrow> shared \<Rightarrow> bool" where
  "task_at r k i t s \<longleftrightarrow> k < length (r_workers r) \<and> i < length (wk_tasks (r_workers r ! k)) \<and> \<not> r_aborted r \<and>
     \<not> wk_exited (r_workers r ! k) \<and> wk_tasks (r_workers r ! k) ! i = t \<and> view (r_workers r ! k) r = s"

context bench_task
begin

lemma task_at_poll:
  assumes "task_at r k i t s" "resume e (t, s) = Some (t', s')" "wf t" "stats_safe (sh_latency s)"
  shows "task_at (run_step resume (Poll k i e) r) k i t' s' \<and> r_requests (run_step resume (Poll k i e) r) = r_requests r"
proof -
  have "tame s s'" using resume_Some [OF assms(3,4,2)] by blast
  then have "sh_stop s' = sh_stop s" "sh_now s' = sh_now s" by (simp_all add: tame_def)
  then show ?thesis using assms(1,2) by (auto simp: task_at_def poll_task_def view_def)
qed

lemma task_at_ticks:
  "task_at r k i t s \<Longrightarrow> run_timed resume es (t, s) = Some (t', s') \<Longrightarrow> wf t \<Longrightarrow> stats_safe (sh_latency s) \<Longrightarrow>
    task_at (run_steps resume (ticks k i es) r) k i t' s' \<and> r_requests (run_steps resume (ticks k i es) r) = r_requests r"
proof (induction k i es arbitrary: r t s rule: ticks.induct)
  case (2 k i d e es)
  let ?r = "run_step resume (Clock d) r" and ?s = "s\<lparr>sh_now := sh_now s + d\<rparr>"
  have at: "task_at ?r k i t ?s" "r_requests ?r = r_requests r"
    using 2(2) by (auto simp: task_at_def view_def run_step_def)
  have safe: "stats_safe (sh_latency ?s)" using 2(5) by simp
  obtain t1 s1 where step: "resume e (t, ?s) = Some (t1, s1)" "run_timed resume es (t1, s1) = Some (t', s')"
    using 2(3) by (auto split: Option.bind_splits)
  have "wf t1" "tame ?s s1" using resume_Some [OF 2(4) safe step(1)] by blast+
  moreover from this(2) safe have "stats_safe (sh_latency s1)" by (rule tame_safe [THEN conjunct1])
  moreover note task_at_poll [OF at(1) step(1) 2(4) safe]
  ultimately show ?case using 2(1) [OF _ step(2)] at(2) by simp
qed simp

end

section \<open>Responses that the report misses\<close>









end
