(* ===== verification/Tls.thy ===== *)
theory Tls
  imports Main_Run
begin

text \<open>
  Certificates: the verifier \<open>NoVerifier\<close> of \<open>src/main.rs\<close>, which verifier a client configuration
  uses, and what the TLS library makes of both sides. The library is a parameter: \<open>webpki\<close>, its own
  verifier, and \<open>handshake\<close>, with the documented laws \<open>handshake_laws\<close>.
\<close>

section \<open>Verifiers\<close>

datatype signature_scheme =
    RSA_PKCS1_SHA1 | ECDSA_SHA1_Legacy | RSA_PKCS1_SHA256 | ECDSA_NISTP256_SHA256 | RSA_PKCS1_SHA384
  | ECDSA_NISTP384_SHA384 | RSA_PSS_SHA256 | RSA_PSS_SHA384 | ED25519 | Other_Scheme nat

text \<open>The methods of \<open>ServerCertVerifier\<close>; True is \<open>Ok\<close>.\<close>

record 'cert verifier =
  verify_server_cert :: "'cert \<Rightarrow> 'cert list \<Rightarrow> string \<Rightarrow> string \<Rightarrow> nat \<Rightarrow> bool"
  verify_tls12_signature :: "string \<Rightarrow> 'cert \<Rightarrow> string \<Rightarrow> bool"
  verify_tls13_signature :: "string \<Rightarrow> 'cert \<Rightarrow> string \<Rightarrow> bool"
  supported_verify_schemes :: "signature_scheme list"

definition no_verifier :: "'cert verifier" where
  "no_verifier = \<lparr>
     verify_server_cert = (\<lambda>end_entity intermediates server_name ocsp_response now. True),
     verify_tls12_signature = (\<lambda>message cert dss. True),
     verify_tls13_signature = (\<lambda>message cert dss. True),
     supported_verify_schemes =
       [RSA_PKCS1_SHA1, ECDSA_SHA1_Legacy, RSA_PKCS1_SHA256, ECDSA_NISTP256_SHA256, RSA_PKCS1_SHA384,
        ECDSA_NISTP384_SHA384, RSA_PSS_SHA256, RSA_PSS_SHA384, ED25519]\<rparr>"

text \<open>The verifier of a client configuration, and the configuration that \<open>probe_alpn\<close> builds.\<close>

definition client_verifier :: "'cert verifier \<Rightarrow> tls_config \<Rightarrow> 'cert verifier" where
  "client_verifier webpki t = (if tls_verify t then webpki else no_verifier)"

definition probe_config :: "config \<Rightarrow> tls_config" where
  "probe_config c = \<lparr>tls_verify = \<not> cfg_insecure c, tls_alpn = [''h2'', ''http/1.1'']\<rparr>"

section \<open>The handshake\<close>

text \<open>A server: its certificate and chain, the schemes its key can sign with, and its protocols.\<close>

record 'cert tls_server =
  ts_cert :: 'cert
  ts_chain :: "'cert list"
  ts_schemes :: "signature_scheme list"
  ts_alpn :: "string list"

text \<open>
  The protocol of a connection by RFC 7301: none if one of the sides names none, else the first of
  the server's that the client offered; if there is none the handshake fails, which is \<open>None\<close>.
\<close>

definition alpn_choice :: "string list \<Rightarrow> string list \<Rightarrow> string option option" where
  "alpn_choice client server =
     (if client = [] \<or> server = [] then Some None
      else (case filter (\<lambda>p. p \<in> set client) server of [] \<Rightarrow> None | p # _ \<Rightarrow> Some (Some p)))"

type_synonym 'cert handshake = "'cert verifier \<Rightarrow> string list \<Rightarrow> string \<Rightarrow> 'cert tls_server \<Rightarrow> string option option"

text \<open>
  What the library documents: a handshake fails when the verifier rejects the certificate, and when
  the server has no scheme that the verifier lists; when the verifier accepts the certificate and every
  signature, and there is a common scheme that all versions of TLS allow, the protocols decide.
\<close>

definition modern :: "signature_scheme \<Rightarrow> bool" where
  "modern x \<longleftrightarrow> x \<in> {ECDSA_NISTP256_SHA256, ECDSA_NISTP384_SHA384, RSA_PSS_SHA256, RSA_PSS_SHA384, ED25519}"

definition handshake_laws :: "'cert handshake \<Rightarrow> bool" where
  "handshake_laws hs \<longleftrightarrow>
     (\<forall>V alpn name S. (\<forall>ocsp now. \<not> verify_server_cert V (ts_cert S) (ts_chain S) name ocsp now) \<longrightarrow> hs V alpn name S = None) \<and>
     (\<forall>V alpn name S. set (ts_schemes S) \<inter> set (supported_verify_schemes V) = {} \<longrightarrow> hs V alpn name S = None) \<and>
     (\<forall>V alpn name S x. (\<forall>ocsp now. verify_server_cert V (ts_cert S) (ts_chain S) name ocsp now) \<and>
        (\<forall>m d. verify_tls12_signature V m (ts_cert S) d \<and> verify_tls13_signature V m (ts_cert S) d) \<and>
        x \<in> set (ts_schemes S) \<and> x \<in> set (supported_verify_schemes V) \<and> modern x \<longrightarrow>
        hs V alpn name S = alpn_choice alpn (ts_alpn S))"

text \<open>\<open>NoVerifier\<close> accepts any certificate: with a modern key, only the protocols decide.\<close>

lemma no_verifier_handshake:
  assumes "handshake_laws hs" "x \<in> set (ts_schemes S)" "modern x"
  shows "hs no_verifier alpn name S = alpn_choice alpn (ts_alpn S)"
proof -
  have "x \<in> set (supported_verify_schemes no_verifier)"
    using assms(3) by (auto simp: modern_def no_verifier_def)
  moreover have "verify_server_cert no_verifier (ts_cert S) (ts_chain S) name ocsp now"
    "verify_tls12_signature no_verifier m (ts_cert S) d" "verify_tls13_signature no_verifier m (ts_cert S) d" for ocsp now m d
    by (simp_all add: no_verifier_def)
  ultimately show ?thesis using assms unfolding handshake_laws_def by blast
qed

lemma rejected_handshake:
  "handshake_laws hs \<Longrightarrow> \<forall>ocsp now. \<not> verify_server_cert V (ts_cert S) (ts_chain S) name ocsp now \<Longrightarrow> hs V alpn name S = None"
  by (simp add: handshake_laws_def)

text \<open>A handshake that satisfies the laws.\<close>

definition plain_handshake :: "'cert handshake" where
  "plain_handshake V alpn name S =
     (if verify_server_cert V (ts_cert S) (ts_chain S) name '''' 0 \<and>
         list_ex (\<lambda>x. x \<in> set (supported_verify_schemes V)) (ts_schemes S)
      then alpn_choice alpn (ts_alpn S) else None)"

lemma plain_handshake_laws: "handshake_laws plain_handshake"
  unfolding handshake_laws_def plain_handshake_def list_ex_iff by auto

end
