(* ===== verification/Bench_Servers.thy ===== *)
theory Bench_Servers
  imports Tls
begin

text \<open>
  The three servers of \<open>src/examples\<close> that the tool is tested against. Each is a state machine on the
  results of its awaits: the accept loop of \<open>main\<close>, the connections it has spawned and, for HTTP/3, the
  requests on each. Over HTTP/1.1 and HTTP/2 hyper runs the connection and calls the service. Errors
  carry their text; \<open>None\<close> is a panic.
\<close>

section \<open>The response\<close>

definition BODY :: string where "BODY = ''OK'' @ [CHR 0x0A]"

text \<open>The one header of every response; \<open>None\<close> is an error of the builder.\<close>

definition response_headers :: "('n, 'v, 'm) http_lib \<Rightarrow> string \<Rightarrow> 'm option" where
  "response_headers H name = do {
     n \<leftarrow> name_from_bytes H name;
     map_append H n (value_from_usize H (length BODY)) (map_new H)
   }"

text \<open>The service of the HTTP/1.1 and HTTP/2 servers: status, headers and body.\<close>

definition bench_service :: "('n, 'v, 'm) http_lib \<Rightarrow> string \<Rightarrow> (u16 \<times> 'm \<times> string) option" where
  "bench_service H name = do {
     m \<leftarrow> response_headers H name;
     Some (200, m, BODY)
   }"

section \<open>HTTP/1.1\<close>

record b1 =
  b1_open :: "bool list"
  b1_log :: string

datatype b1_event = B1_Accepted bool | B1_Served nat "string option"

definition b1_start :: "bool \<Rightarrow> b1 option" where
  "b1_start bound = (if bound
     then Some \<lparr>b1_open = [], b1_log = println ''bench_server listening on http://127.0.0.1:18081''\<rparr> else None)"

fun b1_step :: "b1_event \<Rightarrow> b1 \<Rightarrow> b1 option" where
  "b1_step (B1_Accepted ok) b = (if ok then Some (b\<lparr>b1_open := b1_open b @ [True]\<rparr>) else None)"
| "b1_step (B1_Served i err) b =
     (if i < length (b1_open b) \<and> b1_open b ! i
      then Some (b\<lparr>b1_open := (b1_open b)[i := False],
        b1_log := b1_log b @ (case err of Some e \<Rightarrow> println (''conn error: '' @ e) | None \<Rightarrow> '''')\<rparr>)
      else Some b)"

definition b1_service :: "('n, 'v, 'm) http_lib \<Rightarrow> (u16 \<times> 'm \<times> string) option" where
  "b1_service H = bench_service H ''Content-Length''"

section \<open>HTTP/2\<close>

definition b2_tls :: "'cert \<Rightarrow> signature_scheme list \<Rightarrow> 'cert tls_server" where
  "b2_tls cert schemes = \<lparr>ts_cert = cert, ts_chain = [], ts_schemes = schemes, ts_alpn = [''h2'', ''http/1.1'']\<rparr>"

datatype served = Serve_H2 | Serve_H1

datatype b2_conn = B2_Tls | B2_Serving served | B2_Closed

record b2 =
  b2_conns :: "b2_conn list"
  b2_log :: string
  b2_exit :: "string option"

datatype b2_event = B2_Accepted "string option" | B2_Tls_Done nat "string + string option" | B2_Served nat

text \<open>\<open>main\<close> up to its loop: the first error of the steps that set up the certificate and the socket ends it.\<close>

fun first_error :: "string option list \<Rightarrow> string option" where
  "first_error [] = None"
| "first_error (Some e # rs) = Some e"
| "first_error (None # rs) = first_error rs"

definition b2_start :: "string option list \<Rightarrow> string + b2" where
  "b2_start results = (case first_error results of Some e \<Rightarrow> Inl e
     | None \<Rightarrow> Inr \<lparr>b2_conns = [],
         b2_log = println ''bench_h2_server listening on https://127.0.0.1:18444 (HTTP/2 + HTTP/1.1)'', b2_exit = None\<rparr>)"

definition b2_serve :: "string option \<Rightarrow> served" where
  "b2_serve alpn = (if alpn = Some ''h2'' then Serve_H2 else Serve_H1)"

fun b2_live :: "b2_event \<Rightarrow> b2 \<Rightarrow> b2" where
  "b2_live (B2_Accepted None) b = b\<lparr>b2_conns := b2_conns b @ [B2_Tls]\<rparr>"
| "b2_live (B2_Accepted (Some e)) b = b\<lparr>b2_exit := Some e\<rparr>"
| "b2_live (B2_Tls_Done i r) b =
     (if i < length (b2_conns b) \<and> b2_conns b ! i = B2_Tls
      then (case r of
              Inl e \<Rightarrow> b\<lparr>b2_conns := (b2_conns b)[i := B2_Closed], b2_log := b2_log b @ println (''tls accept error: '' @ e)\<rparr>
            | Inr alpn \<Rightarrow> b\<lparr>b2_conns := (b2_conns b)[i := B2_Serving (b2_serve alpn)]\<rparr>)
      else b)"
| "b2_live (B2_Served i) b =
     (if i < length (b2_conns b) \<and> (\<exists>p \<in> {Serve_H1, Serve_H2}. b2_conns b ! i = B2_Serving p)
      then b\<lparr>b2_conns := (b2_conns b)[i := B2_Closed]\<rparr> else b)"

text \<open>Once \<open>main\<close> has returned, the process is gone.\<close>

definition b2_step :: "b2_event \<Rightarrow> b2 \<Rightarrow> b2" where
  "b2_step e b = (if b2_exit b \<noteq> None then b else b2_live e b)"

definition b2_service :: "('n, 'v, 'm) http_lib \<Rightarrow> (u16 \<times> 'm \<times> string) option" where
  "b2_service H = bench_service H ''content-length''"

section \<open>HTTP/3\<close>

definition b3_tls :: "'cert \<Rightarrow> signature_scheme list \<Rightarrow> 'cert tls_server" where
  "b3_tls cert schemes = \<lparr>ts_cert = cert, ts_chain = [], ts_schemes = schemes, ts_alpn = [''h3'']\<rparr>"

text \<open>A request: the await it is in, and what has been sent on its stream.\<close>

datatype 'm frame = Head u16 'm | Body string | Fin

datatype 'm b3_req = R3_Draining | R3_Heading 'm | R3_Sending | R3_Finishing | R3_Ended "string option"

datatype r3_event = R3_Recv "string + bool" | R3_Sent "string option"

text \<open>\<open>handle_req\<close>; \<open>bad\<close> is the error of the builder, if the crate \<open>http\<close> rejects the header.\<close>

fun handle_req :: "('n, 'v, 'm) http_lib \<Rightarrow> string \<Rightarrow> r3_event \<Rightarrow> 'm b3_req \<times> 'm frame list \<Rightarrow> 'm b3_req \<times> 'm frame list" where
  "handle_req H bad (R3_Recv (Inr True)) (R3_Draining, out) = (R3_Draining, out)"
| "handle_req H bad (R3_Recv (Inr False)) (R3_Draining, out) =
     (case response_headers H ''content-length'' of
        None \<Rightarrow> (R3_Ended (Some bad), out)
      | Some m \<Rightarrow> (R3_Heading m, out))"
| "handle_req H bad (R3_Recv (Inl e)) (R3_Draining, out) = (R3_Ended (Some e), out)"
| "handle_req H bad (R3_Sent (Some e)) (R3_Heading m, out) = (R3_Ended (Some e), out)"
| "handle_req H bad (R3_Sent None) (R3_Heading m, out) = (R3_Sending, out @ [Head 200 m])"
| "handle_req H bad (R3_Sent (Some e)) (R3_Sending, out) = (R3_Ended (Some e), out)"
| "handle_req H bad (R3_Sent None) (R3_Sending, out) = (R3_Finishing, out @ [Body BODY])"
| "handle_req H bad (R3_Sent (Some e)) (R3_Finishing, out) = (R3_Ended (Some e), out)"
| "handle_req H bad (R3_Sent None) (R3_Finishing, out) = (R3_Ended None, out @ [Fin])"
| "handle_req H bad e (r, out) = (r, out)"

datatype b3_state = C3_New | C3_Accepting | C3_Resolving | C3_Ended "string option"

record 'm b3_conn =
  bc_state :: b3_state
  bc_reqs :: "('m b3_req \<times> 'm frame list) list"

datatype b3_event =
    B3_Hello "string option"
  | B3_Accept "string + bool"
  | B3_Resolve "string option"
  | B3_Req nat r3_event

text \<open>
  \<open>handle_conn\<close> and the tasks it spawns, with what they log: the task around \<open>handle_conn\<close> logs the
  error it returns, that around \<open>handle_req\<close> likewise.
\<close>

definition req_log :: "'m b3_req \<Rightarrow> 'm b3_req \<Rightarrow> string" where
  "req_log r r' = (case r' of R3_Ended (Some e) \<Rightarrow> if r' = r then '''' else println (''h3 req error: '' @ e) | _ \<Rightarrow> '''')"

fun handle_conn :: "('n, 'v, 'm) http_lib \<Rightarrow> string \<Rightarrow> b3_event \<Rightarrow> 'm b3_conn \<Rightarrow> 'm b3_conn \<times> string" where
  "handle_conn H bad (B3_Hello r) c =
     (if bc_state c \<noteq> C3_New then (c, '''')
      else (case r of
              Some e \<Rightarrow> (c\<lparr>bc_state := C3_Ended (Some e)\<rparr>, println (''h3 conn error: '' @ e))
            | None \<Rightarrow> (c\<lparr>bc_state := C3_Accepting\<rparr>, '''')))"
| "handle_conn H bad (B3_Accept r) c =
     (if bc_state c \<noteq> C3_Accepting then (c, '''')
      else (case r of
              Inr True \<Rightarrow> (c\<lparr>bc_state := C3_Resolving\<rparr>, '''')
            | Inr False \<Rightarrow> (c\<lparr>bc_state := C3_Ended None\<rparr>, '''')
            | Inl e \<Rightarrow> (c\<lparr>bc_state := C3_Ended None\<rparr>, println (''h3 accept error: '' @ e))))"
| "handle_conn H bad (B3_Resolve r) c =
     (if bc_state c \<noteq> C3_Resolving then (c, '''')
      else (case r of
              Some e \<Rightarrow> (c\<lparr>bc_state := C3_Ended (Some e)\<rparr>, println (''h3 conn error: '' @ e))
            | None \<Rightarrow> (c\<lparr>bc_state := C3_Accepting, bc_reqs := bc_reqs c @ [(R3_Draining, [])]\<rparr>, '''')))"
| "handle_conn H bad (B3_Req i e) c =
     (if i < length (bc_reqs c)
      then (let q = handle_req H bad e (bc_reqs c ! i)
            in (c\<lparr>bc_reqs := (bc_reqs c)[i := q]\<rparr>, req_log (fst (bc_reqs c ! i)) (fst q)))
      else (c, ''''))"

datatype b3_main = M3_Accepting | M3_Incoming | M3_Exited "string option"

record 'm b3 =
  b3_main :: b3_main
  b3_conns :: "'m b3_conn list"
  b3_log :: string

datatype b3_action = B3_Endpoint bool | B3_Incoming "string option" | B3_Conn nat b3_event

definition b3_start :: "string option list \<Rightarrow> string + 'm b3" where
  "b3_start results = (case first_error results of Some e \<Rightarrow> Inl e
     | None \<Rightarrow> Inr \<lparr>b3_main = M3_Accepting, b3_conns = [],
         b3_log = println ''bench_h3_server listening on https://127.0.0.1:18443 (HTTP/3)''\<rparr>)"

fun b3_live :: "('n, 'v, 'm) http_lib \<Rightarrow> string \<Rightarrow> b3_action \<Rightarrow> 'm b3 \<Rightarrow> 'm b3" where
  "b3_live H bad (B3_Endpoint some) b =
     (if b3_main b \<noteq> M3_Accepting then b else b\<lparr>b3_main := if some then M3_Incoming else M3_Exited None\<rparr>)"
| "b3_live H bad (B3_Incoming r) b =
     (if b3_main b \<noteq> M3_Incoming then b
      else (case r of
              Some e \<Rightarrow> b\<lparr>b3_main := M3_Exited (Some e)\<rparr>
            | None \<Rightarrow> b\<lparr>b3_main := M3_Accepting, b3_conns := b3_conns b @ [\<lparr>bc_state = C3_New, bc_reqs = []\<rparr>]\<rparr>))"
| "b3_live H bad (B3_Conn i e) b =
     (if i < length (b3_conns b)
      then (case handle_conn H bad e (b3_conns b ! i) of
              (c, line) \<Rightarrow> b\<lparr>b3_conns := (b3_conns b)[i := c], b3_log := b3_log b @ line\<rparr>)
      else b)"

definition b3_step :: "('n, 'v, 'm) http_lib \<Rightarrow> string \<Rightarrow> b3_action \<Rightarrow> 'm b3 \<Rightarrow> 'm b3" where
  "b3_step H bad e b = (case b3_main b of M3_Exited _ \<Rightarrow> b | _ \<Rightarrow> b3_live H bad e b)"

definition b3_steps :: "('n, 'v, 'm) http_lib \<Rightarrow> string \<Rightarrow> b3_action list \<Rightarrow> 'm b3 \<Rightarrow> 'm b3" where
  "b3_steps H bad es b = fold (b3_step H bad) es b"

definition b2_steps :: "b2_event list \<Rightarrow> b2 \<Rightarrow> b2" where
  "b2_steps es b = fold b2_step es b"

end
