(* ===== verification/Bench_Props.thy ===== *)
theory Bench_Props
  imports Bench_Servers Main_Props
begin

text \<open>
  The tool and the bench servers together: what the HTTP/3 server sends, and which protocol the tool and the
  HTTP/2 server agree on.
\<close>

section \<open>What the HTTP/3 server sends\<close>

definition response_frames :: "'m \<Rightarrow> 'm frame list" where
  "response_frames m = [Head 200 m, Body BODY, Fin]"

definition bench_head :: "('n, 'v, 'm) http_lib \<Rightarrow> 'm \<Rightarrow> bool" where
  "bench_head H m \<longleftrightarrow> response_headers H ''content-length'' = Some m"

text \<open>What is out while a request is in one of its awaits.\<close>

fun framed :: "('n, 'v, 'm) http_lib \<Rightarrow> 'm b3_req \<times> 'm frame list \<Rightarrow> bool" where
  "framed H (R3_Draining, out) = (out = [])"
| "framed H (R3_Heading m, out) = (out = [] \<and> bench_head H m)"
| "framed H (R3_Sending, out) = (\<exists>m. bench_head H m \<and> out = take 1 (response_frames m))"
| "framed H (R3_Finishing, out) = (\<exists>m. bench_head H m \<and> out = take 2 (response_frames m))"
| "framed H (R3_Ended None, out) = (\<exists>m. bench_head H m \<and> out = response_frames m)"
| "framed H (R3_Ended (Some e), out) = (out = [] \<or>
     (\<exists>m. bench_head H m \<and> (out = take 1 (response_frames m) \<or> out = take 2 (response_frames m))))"

lemma framed_req:
  assumes "framed H q"
  shows "framed H (handle_req H bad e q)"
proof -
  have "framed H (handle_req H bad e (r, out))" if "framed H (r, out)" for r out
    using that
  proof (induction H bad e "(r, out)" arbitrary: r out rule: handle_req.induct)
    case (2 H bad out)
    then show ?case by (auto simp: bench_head_def split: option.splits)
  qed (auto simp: response_frames_def)
  then show ?thesis using assms by (cases q) simp
qed

definition conn_framed :: "('n, 'v, 'm) http_lib \<Rightarrow> 'm b3_conn \<Rightarrow> bool" where
  "conn_framed H c \<longleftrightarrow> (\<forall>q \<in> set (bc_reqs c). framed H q)"

lemma conn_framed_step:
  assumes "conn_framed H c"
  shows "conn_framed H (fst (handle_conn H bad e c))"
proof (cases e)
  case (B3_Req i ev)
  have "i < length (bc_reqs c) \<Longrightarrow> framed H (handle_req H bad ev (bc_reqs c ! i))"
    using assms by (intro framed_req) (simp add: conn_framed_def)
  then show ?thesis
    using assms B3_Req all_set_update [of "bc_reqs c" "framed H"] by (simp add: conn_framed_def Let_def) blast
qed (use assms in \<open>auto simp: conn_framed_def split: option.splits sum.splits bool.splits\<close>)

lemma b3_framed_step:
  assumes "\<forall>c \<in> set (b3_conns b). conn_framed H c"
  shows "\<forall>c \<in> set (b3_conns (b3_step H bad a b)). conn_framed H c"
proof (cases a)
  case (B3_Conn i e)
  have "i < length (b3_conns b) \<Longrightarrow> conn_framed H (fst (handle_conn H bad e (b3_conns b ! i)))"
    using assms by (intro conn_framed_step) simp
  then show ?thesis
    using assms B3_Conn all_set_update [of "b3_conns b" "conn_framed H"]
    by (simp add: b3_step_def split: b3_main.splits prod.splits) force
qed (use assms in \<open>auto simp: b3_step_def conn_framed_def split: b3_main.splits option.splits\<close>)

lemma b3_steps_framed:
  assumes "\<forall>c \<in> set (b3_conns b). conn_framed H c"
  shows "\<forall>c \<in> set (b3_conns (b3_steps H bad es b)). conn_framed H c"
  unfolding b3_steps_def using assms b3_framed_step by (rule fold_invariant [where Q = "\<lambda>_. True", OF TrueI])

text \<open>C23: what the HTTP/3 bench server sends. Whatever happens on its connections, each request has been
  answered with a prefix of one response, the head with status 200 and the length of the body, the body, and the end
  of the stream, in this order and each at most once; a request that ended without an error has been
  answered with all of it, and nothing is sent before its body has been read to the end.\<close>

theorem bench_h3_responses:
  assumes "b3_start results = Inr b" "c \<in> set (b3_conns (b3_steps H bad es b))" "(r, out) \<in> set (bc_reqs c)"
  shows "(r = R3_Draining \<longrightarrow> out = []) \<and>
    (case do { n \<leftarrow> name_from_bytes H ''content-length''; map_append H n (value_from_usize H 3) (map_new H) } of
       None \<Rightarrow> out = [] \<and> r \<noteq> R3_Ended None
     | Some m \<Rightarrow> \<exists>rest. out @ rest = [Head 200 m, Body BODY, Fin] \<and> (r = R3_Ended None \<longrightarrow> rest = []))"
proof -
  have "b3_conns b = []" using assms(1) by (auto simp: b3_start_def split: option.splits)
  then have "conn_framed H c" using b3_steps_framed [of b H bad es] assms(2) by simp
  then have f: "framed H (r, out)" using assms(3) by (auto simp: conn_framed_def)
  have made: "do { n \<leftarrow> name_from_bytes H ''content-length''; map_append H n (value_from_usize H 3) (map_new H) }
      = response_headers H ''content-length''"
    by (simp add: response_headers_def BODY_def eval_nat_numeral)
  show ?thesis
  proof (cases "response_headers H ''content-length''")
    case None
    then have "\<not> bench_head H m" for m by (simp add: bench_head_def)
    with f None show ?thesis unfolding made by (cases "(H, r, out)" rule: framed.cases) auto
  next
    case (Some m)
    then have m: "bench_head H m' \<longleftrightarrow> m' = m" for m' by (auto simp: bench_head_def)
    have "\<exists>rest. out @ rest = response_frames m \<and> (r = R3_Ended None \<longrightarrow> rest = [])"
      using f by (cases "(H, r, out)" rule: framed.cases) (auto simp: m response_frames_def)
    moreover have "r = R3_Draining \<longrightarrow> out = []" using f by auto
    ultimately show ?thesis using Some unfolding made by (simp add: response_frames_def)
  qed
qed

definition bench_example :: "b3_action list" where
  "bench_example = [B3_Endpoint True, B3_Incoming None, B3_Conn 0 (B3_Hello None), B3_Conn 0 (B3_Accept (Inr True)),
     B3_Conn 0 (B3_Resolve None), B3_Conn 0 (B3_Req 0 (R3_Recv (Inr True))), B3_Conn 0 (B3_Req 0 (R3_Recv (Inr False))),
     B3_Conn 0 (B3_Req 0 (R3_Sent None)), B3_Conn 0 (B3_Req 0 (R3_Sent None)), B3_Conn 0 (B3_Req 0 (R3_Sent None))]"

theorem bench_h3_responses_witness:
  "\<exists>b c out. b3_start [] = Inr b \<and> b3_conns (b3_steps list_lib ''bad'' bench_example b) = [c] \<and>
    (R3_Ended None, out) \<in> set (bc_reqs c) \<and> out = [Head 200 [(''content-length'', ''3'')], Body BODY, Fin]"
proof -
  obtain b :: "(string \<times> string) list b3" where b: "b3_start [] = Inr b" "b3_main b = M3_Accepting" "b3_conns b = []" by (simp add: b3_start_def)
  obtain c out where c: "b3_conns (b3_steps list_lib ''bad'' bench_example b) = [c]" "(R3_Ended None, out) \<in> set (bc_reqs c)"
    using b(2,3) by (simp add: b3_steps_def bench_example_def b3_step_def list_lib_def response_headers_def Let_def)
  have "show_dec 3 = ''3''" by code_simp
  with bench_h3_responses [OF b(1), of c list_lib "''bad''" bench_example "R3_Ended None" out] b(1) c show ?thesis
    by (auto simp: list_lib_def)
qed

section \<open>Agreement on a protocol\<close>

definition strict_verifier :: "string verifier" where
  "strict_verifier = \<lparr>verify_server_cert = (\<lambda>cert chain name ocsp now. cert = ''known''),
     verify_tls12_signature = (\<lambda>m cert d. True), verify_tls13_signature = (\<lambda>m cert d. True),
     supported_verify_schemes = [ECDSA_NISTP256_SHA256]\<rparr>"

text \<open>C27: the tool and the HTTP/2 bench server agree. The server's certificate is signed by no root. With
  \<open>--insecure\<close>, \<open>auto\<close> resolves to HTTP/2, and for HTTP/1.1 and HTTP/2, resolved or asked for, the
  handshake of each connection succeeds and the server speaks the protocol that the workers speak.
  Without it, the probe fails too, so \<open>auto\<close> falls back to HTTP/1.1, and no connection comes up.\<close>

theorem bench_negotiation:
  assumes "handshake_laws hs" "x \<in> set schemes" "modern x"
    and "\<forall>ocsp now. \<not> verify_server_cert webpki cert [] (cfg_host c) ocsp now"
    and "cfg_scheme c = Https" "S = b2_tls cert schemes"
    and "probed = hs (client_verifier webpki (probe_config c)) (tls_alpn (probe_config c)) (cfg_host c) S"
    and "p = fst (resolve_protocol c False (probe_alpn True (Some True) True (Some probed)))" "p \<noteq> Res_Http3"
    and "build_tls c p True = Done (Some t, Some name)" "made = hs (client_verifier webpki t) (tls_alpn t) name S"
  shows "if cfg_insecure c
    then (cfg_http_version c = Auto \<longrightarrow> p = Res_Http2) \<and>
      (\<exists>alpn. made = Some alpn \<and> b2_serve alpn = (if p = Res_Http2 then Serve_H2 else Serve_H1))
    else (cfg_http_version c = Auto \<longrightarrow> p = Res_Http1) \<and> made = None \<and>
      connect c (Some (\<lambda>n _. hs (client_verifier webpki t) (tls_alpn t) n S)) (Some name) tcp = None"
proof -
  have t: "t = \<lparr>tls_verify = \<not> cfg_insecure c, tls_alpn = (if p = Res_Http2 then [''h2''] else [''http/1.1''])\<rparr>" "name = cfg_host c"
    using assms(5,9,10) by (auto simp: build_tls_def Let_def split: resolved_version.splits)
  have S: "ts_cert S = cert" "ts_chain S = []" "ts_schemes S = schemes" "ts_alpn S = [''h2'', ''http/1.1'']"
    by (simp_all add: assms(6) b2_tls_def)
  show ?thesis
  proof (cases "cfg_insecure c")
    case True
    have hs: "hs no_verifier alpn n S = alpn_choice alpn [''h2'', ''http/1.1'']" for alpn n
      using no_verifier_handshake [OF assms(1), of x S] assms(2,3) S by simp
    have "probed = Some (Some ''h2'')"
      unfolding assms(7) using True by (simp add: client_verifier_def probe_config_def hs alpn_choice_def)
    then have "cfg_http_version c = Auto \<longrightarrow> p = Res_Http2"
      using assms(5) by (simp add: assms(8) resolve_protocol_def probe_alpn_def)
    moreover have "made = Some (Some (if p = Res_Http2 then ''h2'' else ''http/1.1''))"
      unfolding assms(11) using True t by (simp add: client_verifier_def hs alpn_choice_def)
    ultimately show ?thesis using True by (simp add: b2_serve_def)
  next
    case False
    have hs: "hs webpki alpn (cfg_host c) S = None" for alpn
      using rejected_handshake [OF assms(1), of webpki S "cfg_host c"] assms(4) S by simp
    have "probed = None" unfolding assms(7) using False by (simp add: client_verifier_def probe_config_def hs)
    then have "cfg_http_version c = Auto \<longrightarrow> p = Res_Http1"
      using assms(5) by (simp add: assms(8) resolve_protocol_def probe_alpn_def)
    moreover have "made = None" unfolding assms(11) using False t by (simp add: client_verifier_def hs)
    ultimately show ?thesis using False assms(5) t by (simp add: connect_def client_verifier_def hs)
  qed
qed

theorem bench_negotiation_witness:
  "fst (resolve_protocol (example_config\<lparr>cfg_insecure := True, cfg_http_version := Auto\<rparr>) False
    (probe_alpn True (Some True) True (Some (plain_handshake no_verifier [''h2'', ''http/1.1''] ''localhost''
      (b2_tls ''self-signed'' [ECDSA_NISTP256_SHA256]))))) = Res_Http2"
proof -
  let ?c = "example_config\<lparr>cfg_insecure := True, cfg_http_version := Auto\<rparr>"
  let ?S = "b2_tls ''self-signed'' [ECDSA_NISTP256_SHA256]"
  have verify: "\<forall>ocsp now. \<not> verify_server_cert strict_verifier ''self-signed'' [] (cfg_host ?c) ocsp now"
    by (simp add: strict_verifier_def)
  have https: "cfg_scheme ?c = Https" by (simp add: example_config_def)
  obtain t name where t: "build_tls ?c (fst (resolve_protocol ?c False (probe_alpn True (Some True) True
      (Some (plain_handshake (client_verifier strict_verifier (probe_config ?c)) (tls_alpn (probe_config ?c)) (cfg_host ?c) ?S)))))
      True = Done (Some t, Some name)" using https by (simp add: build_tls_def Let_def)
  show ?thesis
    using bench_negotiation [OF plain_handshake_laws _ _ verify https refl refl refl _ t refl, of ECDSA_NISTP256_SHA256]
    by (simp add: modern_def client_verifier_def probe_config_def resolve_protocol_def example_config_def)
qed

end
