(* ===== verification/Tests_Units.thy ===== *)
theory Tests_Units
  imports Units
begin

text \<open>The test module of \<open>src/units.rs\<close>, run on the model.\<close>

definition test_binary_basic :: bool where
  "test_binary_basic \<longleftrightarrow>
     format_binary (lit 0) = ''0.00'' \<and>
     format_binary (lit 512) = ''512.00'' \<and>
     format_binary (lit 1024) = ''1.00K'' \<and>
     format_binary (lit 1536) = ''1.50K'' \<and>
     format_binary (lit 1048576) = ''1.00M''"

definition test_metric_basic :: bool where
  "test_metric_basic \<longleftrightarrow>
     format_metric (lit 1) = ''1.00'' \<and>
     format_metric (lit 1000) = ''1.00k'' \<and>
     format_metric (lit 1500) = ''1.50k'' \<and>
     format_metric (lit 1000000) = ''1.00M''"

definition test_time_us_under_one_second :: bool where
  "test_time_us_under_one_second \<longleftrightarrow>
     format_time_us (lit 100) = ''100.00us'' \<and>
     format_time_us (lit 850) = ''0.85ms'' \<and>
     format_time_us (lit 1000) = ''1.00ms'' \<and>
     format_time_us (lit 999999) = ''1000.00ms''"

definition test_time_us_over_one_second :: bool where
  "test_time_us_over_one_second \<longleftrightarrow>
     format_time_us (lit 1000000) = ''1.00s'' \<and>
     format_time_us (lit 51000000) = ''0.85m'' \<and>
     format_time_us (lit 60000000) = ''1.00m''"

definition test_time_s_formatting :: bool where
  "test_time_s_formatting \<longleftrightarrow>
     format_time_s (lit 10) = ''10s'' \<and>
     format_time_s (lit 60) = ''1m'' \<and>
     format_time_s (lit 120) = ''2m'' \<and>
     format_time_s (lit 3600) = ''60m''"

definition test_scan_metric_units :: bool where
  "test_scan_metric_units \<longleftrightarrow>
     scan_metric ''1'' = Some 1 \<and>
     scan_metric ''1k'' = Some 1000 \<and>
     scan_metric ''1K'' = Some 1000 \<and>
     scan_metric ''1M'' = Some 1000000 \<and>
     scan_metric ''2G'' = Some 2000000000 \<and>
     scan_metric ''abc'' = None \<and>
     scan_metric ''1x'' = None"

definition test_scan_time_units :: bool where
  "test_scan_time_units \<longleftrightarrow>
     scan_time ''10'' = Some 10 \<and>
     scan_time ''10s'' = Some 10 \<and>
     scan_time ''2m'' = Some 120 \<and>
     scan_time ''1h'' = Some 3600 \<and>
     scan_time ''1x'' = None"

definition test_time_us_at_849_stays_us :: bool where
  "test_time_us_at_849_stays_us \<longleftrightarrow> format_time_us (lit 849) = ''849.00us''"

lemma test_binary_basic: test_binary_basic
  unfolding test_binary_basic_def by (intro conjI; code_simp)

lemma test_metric_basic: test_metric_basic
  unfolding test_metric_basic_def by (intro conjI; code_simp)

lemma test_time_us_under_one_second: test_time_us_under_one_second
  unfolding test_time_us_under_one_second_def by (intro conjI; code_simp)

lemma test_time_us_over_one_second: test_time_us_over_one_second
  unfolding test_time_us_over_one_second_def by (intro conjI; code_simp)

lemma test_time_s_formatting: test_time_s_formatting
  unfolding test_time_s_formatting_def by (intro conjI; code_simp)

lemma test_scan_metric_units: test_scan_metric_units
  unfolding test_scan_metric_units_def by (intro conjI; code_simp)

lemma test_scan_time_units: test_scan_time_units
  unfolding test_scan_time_units_def by (intro conjI; code_simp)

lemma test_time_us_at_849_stays_us: test_time_us_at_849_stays_us
  unfolding test_time_us_at_849_stays_us_def by code_simp

end
