(* ===== verification/Tests_Stats.thy ===== *)
theory Tests_Stats
  imports Stats_Moments Stats_Correct
begin

text \<open>The test module of \<open>src/stats.rs\<close>, run on the model: a test passes when it does not panic.\<close>

fun f64_abs :: "f64 \<Rightarrow> f64" where
  "f64_abs NaN = NaN"
| "f64_abs (Infty s) = Infty False"
| "f64_abs (Finite s x) = Finite False x"

definition test_record_and_count :: bool where
  "test_record_and_count \<longleftrightarrow> do {
     s \<leftarrow> stats_alloc 1000;
     (a, s) \<leftarrow> stats_record 10 s;
     (b, s) \<leftarrow> stats_record 20 s;
     (c, s) \<leftarrow> stats_record 10 s;
     Some (a \<and> b \<and> c \<and> st_count s = 3 \<and> st_min s = 10 \<and> st_max s = 20)
   } = Some True"

definition test_record_out_of_range_returns_false :: bool where
  "test_record_out_of_range_returns_false \<longleftrightarrow> do {
     s \<leftarrow> stats_alloc 5;
     (a, s) \<leftarrow> stats_record 5 s;
     (b, s) \<leftarrow> stats_record 6 s;
     (c, s) \<leftarrow> stats_record 100 s;
     Some (a \<and> \<not> b \<and> \<not> c \<and> st_count s = 1)
   } = Some True"

definition test_mean_stdev :: bool where
  "test_mean_stdev \<longleftrightarrow> do {
     s \<leftarrow> stats_alloc 1000;
     s \<leftarrow> record_all [10, 10, 20] s;
     m \<leftarrow> stats_mean s;
     sd \<leftarrow> stats_stdev m s;
     let d10 = lit 10 - m;
     let d20 = lit 20 - m;
     let expected = f64_sqrt ((lit 2 * (d10 * d10) + d20 * d20) / lit 2);
     Some (f64_abs (m - lit 40 / lit 3) < lit (1 / 10 ^ 9) \<and> f64_abs (sd - expected) < lit (1 / 10 ^ 9))
   } = Some True"

definition test_percentile_basic :: bool where
  "test_percentile_basic \<longleftrightarrow> do {
     s \<leftarrow> stats_alloc 1000;
     s \<leftarrow> record_all (range_incl 1 100) s;
     a \<leftarrow> stats_percentile (lit 50) s;
     b \<leftarrow> stats_percentile (lit 99) s;
     c \<leftarrow> stats_percentile (lit 100) s;
     Some (a = 51 \<and> b = 100 \<and> c = 0)
   } = Some True"

definition test_correct_redistributes :: bool where
  "test_correct_redistributes \<longleftrightarrow> do {
     s \<leftarrow> stats_alloc 1000;
     (_, s) \<leftarrow> stats_record 100 s;
     s \<leftarrow> stats_correct 10 s;
     a \<leftarrow> index (st_data s) 90;
     b \<leftarrow> index (st_data s) 20;
     c \<leftarrow> index (st_data s) 10;
     Some (1 \<le> a \<and> 1 \<le> b \<and> c = 0)
   } = Some True"

definition test_within_stdev_all_within_when_uniform :: bool where
  "test_within_stdev_all_within_when_uniform \<longleftrightarrow> do {
     s \<leftarrow> stats_alloc 100;
     s \<leftarrow> record_all (replicate 10 50) s;
     m \<leftarrow> stats_mean s;
     sd \<leftarrow> stats_stdev m s;
     pct \<leftarrow> stats_within_stdev m sd (lit 1) s;
     Some (f64_abs (pct - lit 100) < lit (1 / 10 ^ 9))
   } = Some True"

definition test_popcount :: bool where
  "test_popcount \<longleftrightarrow> do {
     s \<leftarrow> stats_alloc 100;
     s \<leftarrow> record_all [5, 5, 10, 15] s;
     n \<leftarrow> stats_popcount s;
     Some (n = 3)
   } = Some True"

lemma test_record_and_count: test_record_and_count
  by code_simp

lemma test_record_out_of_range_returns_false: test_record_out_of_range_returns_false
  by code_simp

lemma test_popcount: test_popcount
  by code_simp

lemma test_within_stdev_all_within_when_uniform: test_within_stdev_all_within_when_uniform
  by code_simp

text \<open>The expected value of \<open>test_mean_stdev\<close> repeats the arithmetic of \<open>stdev\<close> with the factors
  commuted, so the two agree bit for bit.\<close>

lemma f64_mul_commute: "x * y = (y * x :: f64)"
  by (cases x; cases y) (auto simp: times_f64_def mult.commute intro!: arg_cong [where f = "\<lambda>s. fl s _"])

lemma f64_small_ops:
  assumes "is_rep r" "r \<le> 2 ^ 53"
  shows "Finite False 0 + Finite False r = Finite False r" "Finite False r * lit 1 = Finite False r"
proof -
  have "r \<le> p2 200" using assms(2) p2_mono [of 53 200] by (simp add: p2_53)
  then have "fl False r = Finite False r"
    using fl_finite [of r False] is_rep_nonneg [OF assms(1)] rnd_rep [OF assms(1)] by simp
  then show "Finite False 0 + Finite False r = Finite False r" "Finite False r * lit 1 = Finite False r"
    using is_rep_nonneg [OF assms(1)] fl_int [of 1 False]
    by (auto simp: f64_op_defs signed_val_def Let_def lit_def)
qed

lemma fl_small:
  assumes "0 \<le> x" "x \<le> of_nat k" "k \<le> 2 ^ 53"
  shows "\<exists>r. fl s x = Finite s r \<and> is_rep r \<and> 0 \<le> r \<and> r \<le> of_nat k"
proof -
  have "x \<le> p2 200" using assms(2) of_nat_le_53 [OF assms(3)] p2_mono [of 53 200] by (simp add: p2_53)
  then show ?thesis
    using assms fl_finite [of x s] is_rep_rnd rnd_le_rep [OF _ _ is_rep_of_nat [OF assms(3)], of x] by auto
qed

lemma test_mean_stdev: test_mean_stdev
proof -
  let ?M = "mset [10, 10, 20 :: u64]" and ?m = "lit 40 / lit 3"
  let ?a = "lit 10 - ?m" and ?b = "lit 20 - ?m"
  obtain s where s: "stats_alloc 1000 = Some s" by (simp add: stats_alloc_def checked_add_def)
  obtain s' where s': "record_all [10, 10, 20] s = Some s'" "represents s' ?M" "st_limit s' = 1001"
    using record_all_represents [OF s, of "[10, 10, 20]"] s
    by (auto simp: stats_alloc_def checked_add_def)
  define r where "r = rnd (40 / 3)"
  have r: "13 \<le> r" "r \<le> 14" unfolding r_def
    by (rule rnd_ge_rep, simp, rule is_rep_numeral, simp) (rule rnd_le_rep, simp, simp, rule is_rep_numeral, simp)
  have m: "?m = Finite False r" using f64_div_pos [of 40 3] by (simp add: lit_numeral r_def)
  have mean: "stats_mean s' = Some ?m"
    using mean_rounded [OF s'(2)] by (simp add: m r_def)
  have ab: "lit 10 - Finite False r = fl True (r - 10)" "lit 20 - Finite False r = fl False (20 - r)"
    using r by (simp_all add: lit_numeral f64_op_defs signed_val_def Let_def)
  obtain ra rb where a: "?a = Finite True ra" "0 \<le> ra" "ra \<le> of_nat 4" and b: "?b = Finite False rb" "0 \<le> rb" "rb \<le> of_nat 7"
    using r fl_small [of "r - 10" 4 True] fl_small [of "20 - r" 7 False]
    unfolding m ab by fastforce
  obtain A where A: "?a * ?a = Finite False A" "is_rep A" "0 \<le> A" "A \<le> of_nat 16"
    using a fl_small [of "ra * ra" 16 False] mult_mono [of ra 4 ra 4] by (auto simp: times_f64_def)
  obtain B where B: "?b * ?b = Finite False B" "is_rep B" "0 \<le> B" "B \<le> of_nat 49"
    using b fl_small [of "rb * rb" 49 False] mult_mono [of rb 7 rb 7] by (auto simp: times_f64_def)
  obtain A2 where A2: "?a * ?a * lit 2 = Finite False A2" "is_rep A2" "0 \<le> A2" "A2 \<le> of_nat 32"
    using A fl_small [of "A * 2" 32 False] by (auto simp: times_f64_def lit_numeral)
  have cast: "f64_of_u64 1 = lit 1" "f64_of_u64 2 = lit 2" "f64_of_u64 10 = lit 10" "f64_of_u64 20 = lit 20"
    by (simp_all add: f64_of_u64_def lit_def)
  have st: "st_count s' = 3" "st_min s' = 10" "st_max s' = 20"
    using s'(2) by (simp_all add: represents_def min_of_def max_of_def)
  have data: "\<forall>i < 1001. index (st_data s') i = Some (of_nat (count ?M i))"
  proof (intro allI impI)
    fix i :: u64 assume i: "i < 1001"
    then have "unat i < length (st_data s')"
      using s'(2,3) by (simp add: represents_def stats_safe_def word_less_nat_alt)
    then show "index (st_data s') i = Some (of_nat (count ?M i))"
      using i s'(2,3) unfolding represents_def by (simp only: index_in_range)
  qed
  have "stdev_loop ?m (st_data s') (range_incl 10 20) (lit 0)
      = Some (Finite False 0 + ?a * ?a * lit 2 + ?b * ?b * lit 1)"
    by (simp add: range_incl_def upt_rec data cast Let_def f64_zero_ops(5))
  also have "\<dots> = Some (?a * ?a * lit 2 + ?b * ?b)"
    using A2 B f64_small_ops [of A2] f64_small_ops [of B] by simp
  finally have sd: "stats_stdev ?m s' = Some (f64_sqrt ((?a * ?a * lit 2 + ?b * ?b) / lit 2))"
    by (simp add: stats_stdev_def st cast)
  obtain C where C: "?a * ?a * lit 2 + ?b * ?b = Finite False C" "0 \<le> C" "C \<le> of_nat 81"
  proof -
    have "\<exists>C. Finite False A2 + Finite False B = Finite False C \<and> 0 \<le> C \<and> C \<le> of_nat 81"
      using A2(3,4) B(3,4) fl_small [of "A2 + B" 81 False] by (auto simp: plus_f64_def signed_val_def Let_def)
    then show thesis using that A2(1) B(1) by auto
  qed
  obtain z where z: "f64_sqrt ((?a * ?a * lit 2 + ?b * ?b) / lit 2) = Finite False z"
  proof -
    obtain q where "Finite False C / lit 2 = Finite False q"
      using C(2,3) fl_small [of "C / 2" 81 False] by (auto simp: divide_f64_def lit_numeral)
    then show thesis using that unfolding C(1) by (cases "q = 0") simp_all
  qed
  have "f64_abs (Finite False z - Finite False z) < lit (1 / 10 ^ 9)"
    "f64_abs (?m - ?m) < lit (1 / 10 ^ 9)"
    unfolding m f64_zero_ops(1) by code_simp+
  moreover have "lit 2 * (?a * ?a) = ?a * ?a * lit 2" by (rule f64_mul_commute)
  ultimately show ?thesis
    unfolding test_mean_stdev_def s bind.bind_lunit s'(1) mean sd by (simp add: s' mean sd z Let_def)
qed

lemma test_correct_redistributes: test_correct_redistributes
  by code_simp

lemma test_percentile_basic: test_percentile_basic
proof -
  let ?ns = "range_incl 1 100 :: u64 list"
  obtain s where s: "stats_alloc 1000 = Some s" by (simp add: stats_alloc_def checked_add_def)
  obtain s' where s': "record_all ?ns s = Some s'" "represents s' (mset (filter (\<lambda>n. n \<le> 1000) ?ns))"
    using record_all_represents [OF s, of ?ns] by blast
  have M: "represents s' (mset ?ns)"
  proof -
    have "filter (\<lambda>n. n \<le> 1000) ?ns = ?ns"
      by (rule filter_True) (auto simp: set_range_incl intro: order.trans [of _ 100])
    then show ?thesis using s'(2) by simp
  qed
  have len: "length ?ns = 100" by (simp add: range_incl_def)
  have "lit 100 / lit 100 = Finite False 1"
    using f64_div_pos [of 100 100] rnd_int [of 1] by (simp add: lit_numeral)
  then have "unat (percentile_rank (lit 100) 100) = 100 * unat (100 :: u64) div 100 + 1"
    by (rule rank_from_quotient) simp_all
  then have "unat (percentile_rank (lit 50) 100) = 51 \<and> unat (percentile_rank (lit 99) 100) = 100
      \<and> unat (percentile_rank (lit 100) 100) = 101"
    using percentile_rank_exact [of 50 100] percentile_rank_exact [of 99 100]
    by simp
  moreover have "sort ?ns = ?ns"
    by (simp add: sorted_sort_id strict_sorted_imp_sorted sorted_range_incl)
  moreover have "st_count s' = 100" "mset ?ns \<noteq> {#}" using M len by (auto simp: represents_def)
  ultimately have "stats_percentile (lit 50) s' = Some (?ns ! 50) \<and> stats_percentile (lit 99) s' = Some (?ns ! 99)
      \<and> stats_percentile (lit 100) s' = Some 0"
    using percentile_nearest_rank [OF M _ _ refl] len by simp
  then show ?thesis unfolding test_percentile_basic_def s by (simp add: s'(1)) (simp add: range_incl_def)
qed

end
