(* ===== verification/Tests_Config.thy ===== *)
theory Tests_Config
  imports Report
begin

text \<open>
  The test modules of \<open>src/config.rs\<close> and \<open>src/report.rs\<close>, run on the model. A test passes when
  it does not panic: \<open>unwrap\<close> on an error panics, so a test that unwraps asks for \<open>Inr\<close>.
\<close>

section \<open>\<open>src/config.rs\<close>\<close>

definition parse_http_default_port :: bool where
  "parse_http_default_port \<longleftrightarrow>
     parse_url ''http://example.com/path'' = Inr (Http, ''example.com'', 80)"

definition parse_http_explicit_port :: bool where
  "parse_http_explicit_port \<longleftrightarrow>
     parse_url ''http://127.0.0.1:8080/index.html'' = Inr (Http, ''127.0.0.1'', 8080)"

definition parse_https_default_port :: bool where
  "parse_https_default_port \<longleftrightarrow>
     parse_url ''https://example.com/'' = Inr (Https, ''example.com'', 443)"

definition parse_https_explicit_port :: bool where
  "parse_https_explicit_port \<longleftrightarrow>
     parse_url ''https://example.com:8443/'' = Inr (Https, ''example.com'', 8443)"

definition parse_bad_url :: bool where
  "parse_bad_url \<longleftrightarrow> isl (parse_url ''not-a-url'') \<and> isl (parse_url ''ftp://x/'')"

definition host_header_collapses_default_port :: bool where
  "host_header_collapses_default_port \<longleftrightarrow>
     (let cfg = \<lparr>
        cfg_threads = 1, cfg_connections = 1, cfg_duration = 1, cfg_timeout = 2000,
        cfg_latency = False, cfg_insecure = False, cfg_method = ''GET'', cfg_path = ''/'',
        cfg_body = [], cfg_headers = [], cfg_scheme = Http, cfg_host = ''example.com'',
        cfg_port = 80, cfg_url = ''http://example.com/'', cfg_http_version = Auto,
        cfg_streams_per_conn = 1, cfg_resolved = None\<rparr>
      in host_header cfg = ''example.com''
        \<and> host_header (cfg\<lparr>cfg_port := 8080\<rparr>) = ''example.com:8080'')"

definition metric_arg_parses_si :: bool where
  "metric_arg_parses_si \<longleftrightarrow>
     metric_arg ''1'' = Inr 1 \<and> metric_arg ''1k'' = Inr 1000 \<and> metric_arg ''1M'' = Inr 1000000
     \<and> isl (metric_arg ''abc'')"

definition time_arg_parses_units :: bool where
  "time_arg_parses_units \<longleftrightarrow>
     time_arg ''10'' = Inr 10 \<and> time_arg ''2m'' = Inr 120 \<and> time_arg ''1h'' = Inr 3600
     \<and> isl (time_arg ''1x'')"

definition header_arg_splits_on_colon :: bool where
  "header_arg_splits_on_colon \<longleftrightarrow> header_arg ''X-Test: foo'' = Inr (''X-Test'', ''foo'')"

lemma config_tests:
  "parse_http_default_port" "parse_http_explicit_port" "parse_https_default_port"
  "parse_https_explicit_port" "parse_bad_url"
  by code_simp+

lemma config_arg_tests:
  "metric_arg_parses_si" "time_arg_parses_units" "header_arg_splits_on_colon"
  by code_simp+

lemma host_header_collapses_default_port: host_header_collapses_default_port
  by (simp add: host_header_collapses_default_port_def host_header_def default_port_def Let_def) code_simp

section \<open>\<open>src/report.rs\<close>\<close>

text \<open>The test \<open>header_width\<close> only calls \<open>print_units\<close>, which cannot panic: its subtraction
  saturates and the model's function is total.\<close>

definition units_no_trailing_unit_two_spaces :: bool where
  "units_no_trailing_unit_two_spaces \<longleftrightarrow>
     format_binary (lit 0) = ''0.00'' \<and> format_metric (lit 0) = ''0.00''"

definition stats_table_runs :: bool where
  "stats_table_runs \<longleftrightarrow> do {
     s \<leftarrow> stats_alloc 10000;
     (_, s) \<leftarrow> stats_record 100 s;
     (_, s) \<leftarrow> stats_record 200 s;
     (_, s) \<leftarrow> stats_record 300 s;
     _ \<leftarrow> print_stats ''Latency'' s format_time_us;
     print_stats_latency s
   } \<noteq> None"

lemma units_no_trailing_unit_two_spaces: units_no_trailing_unit_two_spaces
  by code_simp

lemma stats_table_runs: stats_table_runs
proof -
  obtain s where s: "stats_alloc 10000 = Some s" by (simp add: stats_alloc_def checked_add_def)
  obtain s' where s': "record_all [100, 200, 300] s = Some s'" "stats_safe s'"
    using record_all_represents [OF s, of "[100, 200, 300]"] by (auto simp: represents_def)
  have "print_stats_latency s' \<noteq> None"
    unfolding print_stats_latency_def using s'(2) by (intro bind_not_None print_percentiles_Some) simp_all
  moreover have "print_stats ''Latency'' s' format_time_us \<noteq> None"
    by (rule print_stats_Some [OF s'(2)])
  ultimately show ?thesis
    using s s'(1) by (auto simp: stats_table_runs_def split: option.splits prod.splits bind_splits)
qed

end
