(* ===== verification/Tests_Props.thy ===== *)
theory Tests_Props
  imports Tests_Units Tests_Stats Tests_Config
begin

text \<open>The unit tests of the repository on the model, in one statement.\<close>

lemmas unit_tests_of_units =
  test_binary_basic test_metric_basic test_time_us_under_one_second test_time_us_over_one_second
  test_time_s_formatting test_scan_metric_units test_scan_time_units test_time_us_at_849_stays_us

lemmas unit_tests_of_stats =
  test_record_and_count test_record_out_of_range_returns_false test_mean_stdev test_percentile_basic
  test_correct_redistributes test_within_stdev_all_within_when_uniform test_popcount

lemmas unit_tests_of_config =
  config_tests config_arg_tests host_header_collapses_default_port
  units_no_trailing_unit_two_spaces stats_table_runs

text \<open>The tests of the repository hold of the model, but for \<open>header_width\<close>, which asserts nothing. The modules \<open>tests\<close> of
  \<open>src/units.rs\<close>, \<open>src/stats.rs\<close>, \<open>src/config.rs\<close> and \<open>src/report.rs\<close>, transcribed assertion
  by assertion, evaluate to true on the model's definitions: what the authors expect of the formatters,
  the parsers, the histogram and the URL is what the model computes.\<close>

lemma unit_tests_pass:
  "(test_binary_basic \<and> test_metric_basic \<and> test_time_us_under_one_second
     \<and> test_time_us_over_one_second \<and> test_time_s_formatting \<and> test_scan_metric_units
     \<and> test_scan_time_units \<and> test_time_us_at_849_stays_us) \<and>
   (test_record_and_count \<and> test_record_out_of_range_returns_false \<and> test_mean_stdev
     \<and> test_percentile_basic \<and> test_correct_redistributes
     \<and> test_within_stdev_all_within_when_uniform \<and> test_popcount) \<and>
   (parse_http_default_port \<and> parse_http_explicit_port \<and> parse_https_default_port
     \<and> parse_https_explicit_port \<and> parse_bad_url \<and> host_header_collapses_default_port
     \<and> metric_arg_parses_si \<and> time_arg_parses_units \<and> header_arg_splits_on_colon) \<and>
   units_no_trailing_unit_two_spaces \<and> stats_table_runs"
  by (simp add: unit_tests_of_units unit_tests_of_stats unit_tests_of_config)

end
