(* ===== verification/Spec2Isabelle.thy ===== *)
theory Spec2Isabelle
  imports Stats_Props Units_Props Stats_Conc_Props Config_Props Transport_Props Task_Props Run_Props
    Main_Props Measure_Props Bench_Props Tests_Props
begin

text \<open>
  \<^bold>\<open>A verification development of \<open>wrk-rs\<close>, an HTTP benchmarking tool.\<close>

  The program parses its command line (\<open>src/config.rs\<close>), resolves the protocol and sets a run up
  (\<open>src/main.rs\<close>), and starts one worker thread per \<open>-t\<close> (\<open>src/worker.rs\<close>). A worker is a
  single-threaded runtime that polls its connection tasks (\<open>src/connection.rs\<close> for HTTP/1.1,
  \<open>src/h2.rs\<close> and \<open>src/h3.rs\<close> with streams on each connection) and a rate recorder. The tasks count
  into the counters of their worker and record response times into one histogram that all threads
  share (\<open>src/stats.rs\<close>). After the duration \<open>main\<close> sets the stop flag, joins the workers, sums their
  counters, corrects the histogram for coordinated omission and prints the report
  (\<open>src/report.rs\<close>, with the formats of \<open>src/units.rs\<close>).

  \<^bold>\<open>The theories.\<close>

  \<^item> \<open>Prelude\<close>: the machine integers of Rust (\<open>u64\<close> and \<open>u16\<close> as words, release-profile wrapping,
    checked and saturating operations, casts), list access that may panic, and shared lemmas.
  \<^item> \<open>F64\<close>, \<open>F64_Rounding\<close>: an executable model of IEEE binary64 (exact rationals rounded once per
    operation) and its error bounds. \<open>Rust_Str\<close>: strings as UTF-8 bytes, parsing and formatting.
  \<^item> \<open>Stats\<close>: the histogram of \<open>src/stats.rs\<close>, one definition per method and per loop; \<open>Stats_Spec\<close>:
    its contract, a multiset of samples (\<open>represents\<close>), with the locale of a recorder and its
    interpretation; \<open>Stats_Queries\<close>, \<open>Stats_Moments\<close>, \<open>Stats_Correct\<close>, \<open>Stats_Omission\<close>:
    percentiles, mean and deviation, and the correction against the multiset \<open>synth\<close> of the samples it
    stands for; \<open>Stats_Deviation\<close>: the relative error of the standard deviation;
    \<open>Stats_Props\<close>: the properties.
  \<^item> \<open>Stats_Conc\<close>, \<open>Stats_Conc_Props\<close>: \<open>Stats::record\<close> called by several threads at once, one step per
    atomic access, as an inductive step relation with its invariant.
  \<^item> \<open>Units\<close>, \<open>Units_Props\<close>: \<open>src/units.rs\<close>. \<open>Config\<close>, \<open>Config_Props\<close>: \<open>src/config.rs\<close>.
  \<^item> \<open>Counters\<close>: the counters and snapshots of \<open>src/connection.rs\<close>, what a task shares with the rest
    (\<open>shared\<close>), and the two contracts of a task: the locale \<open>bench_task\<close> (every step keeps the books
    balanced, and panics only if the configuration makes no request) and its extension \<open>winding_task\<close> (after the stop
    flag no step panics or sends a request, and each that completes what the task awaits leads towards the end).
  \<^item> \<open>Http_Lib\<close>: the crate \<open>http\<close> as a parameter, with the documented laws of a header map, which has a
    maximal size and panics beyond it, and the
    helpers of \<open>src/connection.rs\<close> that all protocols use (\<open>DrainBody\<close>, the estimate of header bytes).
  \<^item> \<open>Transport\<close>, \<open>Transport_Props\<close>: the enum \<open>Transport\<close> of \<open>src/connection.rs\<close> over its two streams,
    each a record of poll functions, and \<open>connect\<close>.
  \<^item> \<open>Connection\<close>, \<open>H2\<close>, \<open>H3\<close>: \<open>run_connection\<close>, \<open>run_h2_connection\<close> with \<open>run_h2_stream\<close>, and
    \<open>run_h3_connection\<close> with \<open>run_h3_stream\<close>. An async function is a state machine whose states are its
    awaits; \<open>h1_resume\<close>, \<open>h2_resume\<close> and \<open>h3_resume\<close> run it from one await to the next, and what the
    network answers is the event. Each interprets both locales.
  \<^item> \<open>Worker\<close>: the rate recorder, the three \<open>run_*worker\<close> functions and the run of all workers
    (\<open>run_step\<close>, \<open>run_steps\<close>): an action polls one task, lets one recorder take its turn, advances the
    clock or sets the stop flag. A panic ends the program (\<open>r_aborted\<close>), as the release profile of
    \<open>Cargo.toml\<close> says. Its lemmas on whole runs are proved once, in the locales.
  \<^item> \<open>Report\<close>: \<open>src/report.rs\<close>. \<open>Main_Run\<close>: \<open>src/main.rs\<close>, in three parts: \<open>main_setup\<close> up to and
    with the spawning of the threads, \<open>start_run\<close>, and \<open>main_finish\<close> from the join to the report.
  \<^item> \<open>Measure\<close>, \<open>Measure_Props\<close>: what a task measures of a sequence of answers, as the locale
    \<open>exchange_loop\<close> (a request that is answered is accounted for, and the next one is sent unless the stop
    flag is set) with an interpretation for each protocol.
  \<^item> \<open>Tls\<close>: \<open>NoVerifier\<close> and the client configurations of \<open>src/main.rs\<close>, with the documented laws of a
    handshake. \<open>Bench_Servers\<close>, \<open>Bench_Props\<close>: the servers of \<open>src/examples\<close> as state machines, what
    the HTTP/3 one sends, and what the tool negotiates with the HTTP/2 one.
  \<^item> \<open>Tests_Units\<close>, \<open>Tests_Stats\<close>, \<open>Tests_Config\<close>, \<open>Tests_Props\<close>: the unit tests of the repository that assert
    something, run on the model.
  \<^item> \<open>Task_Props\<close>, \<open>Run_Props\<close>, \<open>Main_Props\<close>: the properties of the tasks, of a run, and of the whole.

  \<^bold>\<open>Conventions.\<close> A panic is \<open>None\<close>, an \<open>exit\<close> is \<open>Exit\<close> with what was printed. An allocation
  that runs out of memory is not a panic and is not modelled; one whose size no allocation can have is.
  Arithmetic is that of a release build. The clock counts nanoseconds as natural numbers. A string is the list of its bytes.

  \<^bold>\<open>What is shown.\<close> The histogram refines a multiset, sequentially and under any interleaving of
  threads, its queries are the statistics they are named after within stated bounds, and no operation
  panics. A configuration that leaves \<open>parse_args\<close> meets what the rest relies on; the set-up panics
  exactly for a huge timeout, for as many threads as cannot be, or when the platform refuses a thread, and a run
  only when a request cannot be built. In every reachable state of every run, for every protocol, each response is
  a sample or a timeout and is counted or about to be; workers end with their recorder's first turn
  after the stop flag; tasks start no request since, and on every schedule they end, with all they counted, after few
  completions of what they await; the report is always printed, from the sums over the workers. For every sequence of answers the counters and the
  histogram of a task end as the answers say, exactly. A connection is the stream that the URL asks for, and \<open>--insecure\<close> is what lets
  the handshake with a self-signed server succeed. The flaws that modelling showed are stated as
  theorems too: responses that are lost at the end (any number of them), targets that make no request, rates and percentiles that are off by one, zero
  percentiles after the correction, unchecked timeouts, bodies that HTTP/3 does not send.

  \<^bold>\<open>Bounds.\<close> Statements on \<open>f64\<close> results name their ranges (\<open>2^44\<close> samples for ranks, \<open>2^53\<close> for sums,
  \<open>2^40\<close> for rates): below them the roundings cannot change the result, or by no more than stated.
  There is no fuel: loops are structural or have a termination proof, and the runs are finite lists of
  actions of any length. Tasks of different workers interleave between awaits; inside \<open>Stats::record\<close>
  they may overlap, which \<open>Stats_Conc\<close> covers on its own.

  \<^bold>\<open>Not modelled.\<close> The splitting of \<open>argv\<close> by the code that \<open>clap\<close> generates (\<open>parse_args\<close> starts from
  its result); sockets, the TLS, QUIC and HTTP protocols and the tokio scheduler, which answer as events
  and arguments; \<open>worker_runtime\<close>, which only configures a tokio runtime; the generation of the bench
  servers' certificates and their sockets, whose errors are arguments of their start.
\<close>

end
